theory Spec2Isabelle
  imports Complex_Main "HOL-Library.Word"
begin

unbundle bit_operations_syntax

section \<open>FreeWX: a logger for Davis weather stations\<close>

text \<open>
  A shallow embedding of the sample pipeline of \<^verbatim>\<open>fwx.c\<close> and of the serial
  support routines of \<^verbatim>\<open>support.c\<close>.  C \<^verbatim>\<open>int\<close> values are modelled as
  \<^typ>\<open>int\<close>: every quantity below stays far inside 32 bits.  C \<^verbatim>\<open>float\<close>
  values are modelled as \<^typ>\<open>real\<close>, so rounding to single precision is not
  part of the model.
\<close>

subsection \<open>Errors of the model\<close>

text \<open>
  Places where the C program has no defined result are values of the model:
  \<^item> \<open>DivByZero\<close>: the integer division \<^verbatim>\<open>10 * 60 / fwxinterval\<close> with interval 0;
  \<^item> \<open>SizingDiverges\<close>: the sizing loop of the gust buffer never leaves;
  \<^item> \<open>FoundUnassigned\<close>: \<^verbatim>\<open>&warr[found]\<close> is evaluated while the local
    \<^verbatim>\<open>found\<close> was never assigned.
\<close>

datatype error = DivByZero | SizingDiverges | FoundUnassigned

subsection \<open>Wind observations and the gust tracker (\<^verbatim>\<open>wxcalcwindgust\<close>)\<close>

record wind =
  speed :: int
  direction :: int

definition wind_zero :: wind where
  "wind_zero = \<lparr>speed = 0, direction = 0\<rparr>"

text \<open>The function's static variables. A null \<^verbatim>\<open>warr\<close> is the empty list.\<close>

record gust_state =
  warr :: "wind list"
  walen :: int
  waidx :: int
  tenmin :: int

definition gust_init :: gust_state where
  "gust_init = \<lparr>warr = [], walen = 0, waidx = 0, tenmin = 0\<rparr>"

text \<open>C's integer division truncates towards zero.\<close>

definition c_div :: "int \<Rightarrow> int \<Rightarrow> int" where
  "c_div a b = sgn a * sgn b * (\<bar>a\<bar> div \<bar>b\<bar>)"

text \<open>
  \<^verbatim>\<open>walen = 1; do { walen <<= 1; } while (i >>= 1);\<close> entered with the current
  \<^verbatim>\<open>walen\<close> and \<^verbatim>\<open>i\<close>.  The right shift of a negative \<^verbatim>\<open>int\<close> is the
  arithmetic one, which is \<open>div 2\<close> on \<^typ>\<open>int\<close>; from a negative \<^verbatim>\<open>i\<close> the
  loop never reaches 0, and the model has no result there.
\<close>

partial_function (option) walen_loop :: "int \<Rightarrow> int \<Rightarrow> int option" where
  "walen_loop w i =
     (if i div 2 \<noteq> 0 then walen_loop (w * 2) (i div 2) else Some (w * 2))"

declare walen_loop.simps [code]

text \<open>\<^verbatim>\<open>idx = (f + i) & (walen - 1)\<close>: the slot of the \<open>i\<close>-th step of the scan.\<close>

definition window_idx :: "int \<Rightarrow> int \<Rightarrow> int \<Rightarrow> int" where
  "window_idx len f i = (f + i) AND (len - 1)"

text \<open>
  \<^verbatim>\<open>for (i = 0; i < tenmin; ++i)\<close> with its body, entered with the current
  \<^verbatim>\<open>i\<close>, \<^verbatim>\<open>gust\<close> and \<^verbatim>\<open>found\<close>; a \<^verbatim>\<open>found\<close> that has not been assigned
  is \<open>None\<close>.  The result is \<^verbatim>\<open>found\<close> when the loop is left.
\<close>

function gust_scan :: "wind list \<Rightarrow> int \<Rightarrow> int \<Rightarrow> int \<Rightarrow> int \<Rightarrow> int \<Rightarrow> int option \<Rightarrow> int option" where
  "gust_scan arr len f tm i gust found =
     (if i < tm then
        (if speed (arr ! nat (window_idx len f i)) > gust
         then gust_scan arr len f tm (i + 1)
                (speed (arr ! nat (window_idx len f i))) (Some (window_idx len f i))
         else gust_scan arr len f tm (i + 1) gust found)
      else found)"
  by pat_completeness auto
termination
  by (relation "measure (\<lambda>(arr, len, f, tm, i, gust, found). nat (tm - i))") auto

declare gust_scan.simps [simp del]

text \<open>
  The part of \<^verbatim>\<open>wxcalcwindgust\<close> after the buffer exists: store the new point,
  advance the cursor, scan the last \<^verbatim>\<open>tenmin\<close> slots, return \<^verbatim>\<open>&warr[found]\<close>.
\<close>

definition gust_record :: "gust_state \<Rightarrow> wind \<Rightarrow> error + (gust_state \<times> wind option)" where
  "gust_record g wp =
     (let arr = (warr g)[nat (waidx g) := wp];
          idx' = (waidx g + 1) AND (walen g - 1);
          g' = g\<lparr>warr := arr, waidx := idx'\<rparr>;
          f = (idx' + (walen g - tenmin g)) AND (walen g - 1)
      in case gust_scan arr (walen g) f (tenmin g) 0 0 None of
           None \<Rightarrow> Inl FoundUnassigned
         | Some found \<Rightarrow> Inr (g', Some (arr ! nat found)))"

text \<open>
  The sizing done on the first call: \<^verbatim>\<open>i = tenmin = 10 * 60 / fwxinterval + 1\<close>
  and the doubling loop.  The result is the pair \<^verbatim>\<open>(tenmin, walen)\<close>.
\<close>

definition gust_sizing :: "int \<Rightarrow> error + (int \<times> int)" where
  "gust_sizing interval =
     (if interval = 0 then Inl DivByZero
      else let tm = c_div (10 * 60) interval + 1 in
        case walen_loop 1 tm of
          None \<Rightarrow> Inl SizingDiverges
        | Some len \<Rightarrow> Inr (tm, len))"

text \<open>
  \<^verbatim>\<open>wxcalcwindgust\<close>.  \<open>interval\<close> is the global \<^verbatim>\<open>fwxinterval\<close>, \<open>malloc_ok\<close>
  says whether \<^verbatim>\<open>malloc\<close> returns storage; the result \<open>None\<close> is the null
  pointer returned after a failed allocation.
\<close>

definition wxcalcwindgust :: "int \<Rightarrow> bool \<Rightarrow> gust_state \<Rightarrow> wind \<Rightarrow> error + (gust_state \<times> wind option)" where
  "wxcalcwindgust interval malloc_ok g wp =
     (if walen g = 0 then
        (case gust_sizing interval of
           Inl e \<Rightarrow> Inl e
         | Inr (tm, len) \<Rightarrow>
             if \<not> malloc_ok then Inr (g\<lparr>warr := [], walen := 0, tenmin := tm\<rparr>, None)
             else gust_record (g\<lparr>warr := replicate (nat len) wind_zero, walen := len, tenmin := tm\<rparr>) wp)
      else gust_record g wp)"

text \<open>
  The polling loop of \<^verbatim>\<open>main\<close> reaches the tracker once per cycle.  Feeding a
  list of observations, one per cycle, collects the reported gusts; the run
  stops where the program has no defined result.
\<close>

fun gust_feed :: "int \<Rightarrow> gust_state \<Rightarrow> wind list \<Rightarrow> error + (gust_state \<times> wind list)" where
  "gust_feed interval g [] = Inr (g, [])"
| "gust_feed interval g (wp # wps) =
     (case wxcalcwindgust interval True g wp of
        Inl e \<Rightarrow> Inl e
      | Inr (g', r) \<Rightarrow>
          (case gust_feed interval g' wps of
             Inl e \<Rightarrow> Inl e
           | Inr (g'', rs) \<Rightarrow> Inr (g'', (case r of None \<Rightarrow> wp | Some x \<Rightarrow> x) # rs)))"

subsection \<open>The gust tracker in the words of the specification\<close>

text \<open>
  The peak of a window, listed in chronological order: the first observation
  that no observation of the window exceeds (``scan window in chronological order
  and keep the first maximum found'').
\<close>

definition window_peak :: "wind list \<Rightarrow> wind option" where
  "window_peak ws = find (\<lambda>w. \<forall>v \<in> set ws. speed v \<le> speed w) ws"

text \<open>
  The window after the observations \<open>hist\<close>, the most recent first: the last
  \<open>tm\<close> of them in chronological order.  The cycles before the first
  observation count as the zeroed slots of the new buffer.
\<close>

definition recent_window :: "nat \<Rightarrow> wind list \<Rightarrow> wind list" where
  "recent_window tm hist = rev (take tm (hist @ replicate tm wind_zero))"

text \<open>
  The two stores of a call into the tracker, and the invariant that ties the
  circular buffer to the observations seen: the slot \<open>d\<close> steps behind the
  cursor holds the observation \<open>d\<close> cycles back.
\<close>

definition ring_push :: "gust_state \<Rightarrow> wind \<Rightarrow> gust_state" where
  "ring_push g wp =
     g\<lparr>warr := (warr g)[nat (waidx g) := wp], waidx := (waidx g + 1) AND (walen g - 1)\<rparr>"

definition ring_inv :: "gust_state \<Rightarrow> wind list \<Rightarrow> bool" where
  "ring_inv g hist \<longleftrightarrow>
     (\<exists>k. walen g = 2 ^ k) \<and> int (length (warr g)) = walen g
   \<and> 0 \<le> waidx g \<and> waidx g < walen g \<and> 0 < tenmin g \<and> tenmin g \<le> walen g
   \<and> (\<forall>d. d < length (warr g) \<longrightarrow>
          warr g ! nat ((waidx g - 1 - int d) mod walen g)
            = (if d < length hist then hist ! d else wind_zero))"

subsection \<open>Measurements (\<^verbatim>\<open>fwx.h\<close>)\<close>

text \<open>
  \<^verbatim>\<open>wxd_t\<close>: the members \<^verbatim>\<open>floatd\<close> and \<^verbatim>\<open>intd\<close> of the union are kept as two
  fields: the program reads a member only after writing that member, or from the
  zeroed sample, where both read 0.  A null \<^verbatim>\<open>units\<close> pointer is the empty string.
\<close>

record wxd =
  floatd :: real
  intd :: int
  flags :: "32 word"
  units :: string

definition wxd_zero :: wxd where
  "wxd_zero = \<lparr>floatd = 0, intd = 0, flags = 0, units = []\<rparr>"

definition WXD_INVALID :: "32 word" where "WXD_INVALID = 0x0000"
definition WXD_VALID :: "32 word" where "WXD_VALID = 0x0010"
definition WXD_METRIC :: "32 word" where "WXD_METRIC = 0x0100"
definition WXD_ENGLISH :: "32 word" where "WXD_ENGLISH = 0x0200"

definition WXD_ISVALID :: "wxd \<Rightarrow> bool" where
  "WXD_ISVALID x \<longleftrightarrow> flags x AND WXD_VALID \<noteq> 0"

definition WXD_ISENGLISH :: "wxd \<Rightarrow> bool" where
  "WXD_ISENGLISH x \<longleftrightarrow> flags x AND WXD_ENGLISH \<noteq> 0"

definition WXD_ISMETRIC :: "wxd \<Rightarrow> bool" where
  "WXD_ISMETRIC x \<longleftrightarrow> flags x AND WXD_METRIC \<noteq> 0"

text \<open>
  \<^verbatim>\<open>wxdat_t\<close>, with the member \<^verbatim>\<open>solar\<close> that \<^verbatim>\<open>fwx.c\<close> reads and writes.
\<close>

record wxdat =
  time :: int
  windcur :: wind
  windavg :: wind
  windgust :: wind
  barometer :: wxd
  windspeed :: wxd
  winddir :: wxd
  avgwindspeed :: wxd
  avgwindspeedinterval :: wxd
  indoortemp :: wxd
  outdoortemp :: wxd
  indoorhum :: wxd
  outdoorhum :: wxd
  outdoordewpoint :: wxd
  rainrate :: wxd
  rainday :: wxd
  rainmonth :: wxd
  rainyear :: wxd
  solar :: wxd

text \<open>\<^verbatim>\<open>memset((void *)&wxdat, 0, sizeof(wxdat_t)); wxdat.time = time(0)\<close> in \<^verbatim>\<open>main\<close>.\<close>

definition wxdat_zero :: "int \<Rightarrow> wxdat" where
  "wxdat_zero t =
     \<lparr>time = t, windcur = wind_zero, windavg = wind_zero, windgust = wind_zero,
      barometer = wxd_zero, windspeed = wxd_zero, winddir = wxd_zero,
      avgwindspeed = wxd_zero, avgwindspeedinterval = wxd_zero,
      indoortemp = wxd_zero, outdoortemp = wxd_zero, indoorhum = wxd_zero,
      outdoorhum = wxd_zero, outdoordewpoint = wxd_zero, rainrate = wxd_zero,
      rainday = wxd_zero, rainmonth = wxd_zero, rainyear = wxd_zero, solar = wxd_zero\<rparr>"

text \<open>\<^verbatim>\<open>WXD_SETDAT(x, v, floatd); WXD_SETFLAGS(x, n)\<close> and the \<^verbatim>\<open>intd\<close> form.\<close>

definition set_float :: "wxd \<Rightarrow> real \<Rightarrow> 32 word \<Rightarrow> wxd" where
  "set_float x v n = x\<lparr>floatd := v, flags := n\<rparr>"

definition set_int :: "wxd \<Rightarrow> int \<Rightarrow> 32 word \<Rightarrow> wxd" where
  "set_int x v n = x\<lparr>intd := v, flags := n\<rparr>"

subsection \<open>The LOOP record (\<^verbatim>\<open>davis.h\<close>)\<close>

text \<open>
  \<^verbatim>\<open>vploopdata_t\<close> is a packed struct of 99 bytes filled by reading the serial
  line, so a record is its list of bytes.  The member offsets follow from the
  declaration under \<^verbatim>\<open>#pragma pack(1)\<close>.  Without \<^verbatim>\<open>SWAP_DAVIS_DATA\<close> (the
  build of the Makefile, for ia32 and amd64) \<^verbatim>\<open>get_d_16\<close> is the identity and a
  16-bit member is read in the host's little-endian order.
\<close>

type_synonym byte = "8 word"

definition VPLOOPSIZE :: nat where
  "VPLOOPSIZE = 99"

definition u8_at :: "byte list \<Rightarrow> nat \<Rightarrow> int" where
  "u8_at ld off = uint (ld ! off)"

definition u16_at :: "byte list \<Rightarrow> nat \<Rightarrow> int" where
  "u16_at ld off = uint (ld ! off) + 256 * uint (ld ! (off + 1))"

text \<open>An \<^verbatim>\<open>int16_t\<close> member, promoted to \<^verbatim>\<open>int\<close>.\<close>

definition s16_at :: "byte list \<Rightarrow> nat \<Rightarrow> int" where
  "s16_at ld off = (if u16_at ld off \<ge> 32768 then u16_at ld off - 65536 else u16_at ld off)"

definition ld_bar :: "byte list \<Rightarrow> int" where "ld_bar ld = u16_at ld 7"
definition ld_tempIn :: "byte list \<Rightarrow> int" where "ld_tempIn ld = s16_at ld 9"
definition ld_humIn :: "byte list \<Rightarrow> int" where "ld_humIn ld = u8_at ld 11"
definition ld_tempOut :: "byte list \<Rightarrow> int" where "ld_tempOut ld = s16_at ld 12"
definition ld_windSpeed :: "byte list \<Rightarrow> int" where "ld_windSpeed ld = u8_at ld 14"
definition ld_windSpeed10 :: "byte list \<Rightarrow> int" where "ld_windSpeed10 ld = u8_at ld 15"
definition ld_windDir :: "byte list \<Rightarrow> int" where "ld_windDir ld = u16_at ld 16"
definition ld_humOut :: "byte list \<Rightarrow> int" where "ld_humOut ld = u8_at ld 33"
definition ld_rainRate :: "byte list \<Rightarrow> int" where "ld_rainRate ld = u16_at ld 41"
definition ld_solarRad :: "byte list \<Rightarrow> int" where "ld_solarRad ld = u16_at ld 44"
definition ld_rainDay :: "byte list \<Rightarrow> int" where "ld_rainDay ld = u16_at ld 50"
definition ld_rainMonth :: "byte list \<Rightarrow> int" where "ld_rainMonth ld = u16_at ld 52"
definition ld_rainYear :: "byte list \<Rightarrow> int" where "ld_rainYear ld = u16_at ld 54"

definition EIGHT_ONES :: int where "EIGHT_ONES = 0xff"
definition SIXTEEN_ONES :: int where "SIXTEEN_ONES = 0xffff"

subsection \<open>Dewpoint (\<^verbatim>\<open>wxcalcdewpoint\<close>)\<close>

text \<open>
  The two assignments
  \<^verbatim>\<open>ews = hum * 0.01 * 6.112 * exp((17.62 * temp)/(243.12 + temp))\<close> and
  \<^verbatim>\<open>dewpoint = (243.12 * log(ews) - 440.1) / (19.43 - log(ews))\<close>
  over the reals.  The result \<open>None\<close> is a NaN, the only value \<^verbatim>\<open>isnan\<close>
  rejects.  In IEEE arithmetic the quotient is a NaN exactly when \<^verbatim>\<open>ews\<close> is not
  positive: a negative \<^verbatim>\<open>ews\<close> has a NaN logarithm, and a zero \<^verbatim>\<open>ews\<close> (from a
  zero humidity, or from \<^verbatim>\<open>exp\<close> of minus infinity when \<^verbatim>\<open>243.12 + temp\<close> is 0)
  gives minus infinity over plus infinity.  A zero denominator \<^verbatim>\<open>19.43 - log(ews)\<close>
  gives an infinity in C, which passes \<^verbatim>\<open>isnan\<close>; the model has no infinities
  and holds HOL's quotient there.
\<close>

definition sonntag_ews :: "real \<Rightarrow> real \<Rightarrow> real" where
  "sonntag_ews hum temp = hum * 0.01 * 6.112 * exp ((17.62 * temp) / (243.12 + temp))"

definition sonntag :: "real \<Rightarrow> real \<Rightarrow> real option" where
  "sonntag hum temp =
     (if 243.12 + temp = 0 \<or> sonntag_ews hum temp \<le> 0 then None
      else Some ((243.12 * ln (sonntag_ews hum temp) - 440.1) / (19.43 - ln (sonntag_ews hum temp))))"

definition wxcalcdewpoint :: "wxdat \<Rightarrow> wxdat" where
  "wxcalcdewpoint w =
     (if \<not> WXD_ISVALID (outdoortemp w) \<or> \<not> WXD_ISVALID (outdoorhum w) then w
      else
        let temp = floatd (outdoortemp w);
            hum = floatd (outdoorhum w);
            english = (flags (outdoorhum w) AND WXD_ENGLISH \<noteq> 0);
            temp' = (if english then (temp - 32.0) * 5.0 / 9.0 else temp)
        in case sonntag hum temp' of
             None \<Rightarrow> w
           | Some dewpoint \<Rightarrow>
               if english then
                 w\<lparr>outdoordewpoint :=
                     (set_float (outdoordewpoint w) ((dewpoint * 9.0) / 5.0 + 32.0)
                        (WXD_VALID OR WXD_ENGLISH OR 1))\<lparr>units := ''deg F''\<rparr>\<rparr>
               else
                 w\<lparr>outdoordewpoint :=
                     (set_float (outdoordewpoint w) dewpoint
                        (WXD_VALID OR WXD_METRIC OR 1))\<lparr>units := ''deg C''\<rparr>\<rparr>)"

subsection \<open>The decoder (\<^verbatim>\<open>cvtvploop2fwx\<close>)\<close>

text \<open>
  The decoder treats each measurement with the same three statements:
  \<^verbatim>\<open>WXD_SETUNITS(x, u); tmp = ...; if (ok) { WXD_SETDAT(x, v, floatd); WXD_SETFLAGS(x, n); }\<close>.
  \<open>cvt_float\<close> is their effect on the member \<open>x\<close>, and \<open>cvt_int\<close> the same
  with \<^verbatim>\<open>intd\<close>.  Each group of statements writes members of the sample that
  no other group touches, so a group is one update of the record.
\<close>

definition cvt_float :: "string \<Rightarrow> bool \<Rightarrow> real \<Rightarrow> 32 word \<Rightarrow> wxd \<Rightarrow> wxd" where
  "cvt_float u ok v n x = (if ok then set_float (x\<lparr>units := u\<rparr>) v n else x\<lparr>units := u\<rparr>)"

definition cvt_int :: "string \<Rightarrow> bool \<Rightarrow> int \<Rightarrow> 32 word \<Rightarrow> wxd \<Rightarrow> wxd" where
  "cvt_int u ok v n x = (if ok then set_int (x\<lparr>units := u\<rparr>) v n else x\<lparr>units := u\<rparr>)"

text \<open>The statements up to the call of \<^verbatim>\<open>wxcalcwindgust\<close>.\<close>

definition cvt_head :: "byte list \<Rightarrow> wxdat \<Rightarrow> wxdat" where
  "cvt_head ld w =
     w\<lparr>barometer :=
         cvt_float ''in'' (ld_bar ld \<noteq> SIXTEEN_ONES) (real_of_int (ld_bar ld) / 1000)
           (WXD_VALID OR WXD_ENGLISH OR 3) (barometer w),
       windcur :=
         (let c = (if ld_windSpeed ld \<noteq> EIGHT_ONES
                   then (windcur w)\<lparr>speed := ld_windSpeed ld\<rparr> else windcur w)
          in if ld_windDir ld \<le> 360 then c\<lparr>direction := ld_windDir ld\<rparr> else c),
       windavg :=
         (if ld_windSpeed10 ld \<noteq> EIGHT_ONES
          then (windavg w)\<lparr>speed := ld_windSpeed10 ld\<rparr> else windavg w)\<rparr>"

text \<open>The statements from \<^verbatim>\<open>WXD_SETUNITS(wxdatp->windspeed, "mph")\<close> to the temperatures.\<close>

definition cvt_wind_temp :: "byte list \<Rightarrow> wxdat \<Rightarrow> wxdat" where
  "cvt_wind_temp ld w =
     w\<lparr>windspeed :=
         cvt_float ''mph'' (ld_windSpeed ld \<noteq> EIGHT_ONES) (real_of_int (ld_windSpeed ld))
           (WXD_VALID OR WXD_ENGLISH OR 0) (windspeed w),
       winddir :=
         cvt_float ''deg'' (ld_windDir ld \<le> 360) (real_of_int (ld_windDir ld))
           (WXD_VALID OR 0) (winddir w),
       avgwindspeed :=
         cvt_float ''mph'' (ld_windSpeed10 ld \<noteq> EIGHT_ONES) (real_of_int (ld_windSpeed10 ld))
           (WXD_VALID OR WXD_ENGLISH OR 0) (avgwindspeed w),
       avgwindspeedinterval :=
         cvt_float ''min'' (ld_windSpeed10 ld \<noteq> EIGHT_ONES) 10
           (WXD_VALID OR 0) (avgwindspeedinterval w),
       indoortemp :=
         cvt_float ''deg F''
           (ld_tempIn ld \<noteq> 0x1000 \<and> ld_tempIn ld > -1500 \<and> ld_tempIn ld < 1500)
           (real_of_int (ld_tempIn ld) / 10) (WXD_VALID OR WXD_ENGLISH OR 1) (indoortemp w),
       outdoortemp :=
         cvt_float ''deg F''
           (ld_tempOut ld \<noteq> 0x1000 \<and> ld_tempOut ld > -1500 \<and> ld_tempOut ld < 1500)
           (real_of_int (ld_tempOut ld) / 10) (WXD_VALID OR WXD_ENGLISH OR 1) (outdoortemp w)\<rparr>"

text \<open>The statements from the humidities to the yearly rain.\<close>

definition cvt_hum_rain :: "byte list \<Rightarrow> wxdat \<Rightarrow> wxdat" where
  "cvt_hum_rain ld w =
     w\<lparr>indoorhum :=
         cvt_float ''%'' (ld_humIn ld \<noteq> EIGHT_ONES \<and> ld_humIn ld \<le> 100)
           (real_of_int (ld_humIn ld)) (WXD_VALID OR 0) (indoorhum w),
       outdoorhum :=
         cvt_float ''%'' (ld_humOut ld \<noteq> EIGHT_ONES \<and> ld_humOut ld \<le> 100)
           (real_of_int (ld_humOut ld)) (WXD_VALID OR 0) (outdoorhum w),
       rainrate :=
         cvt_float ''in/hr'' (ld_rainRate ld \<noteq> SIXTEEN_ONES) (real_of_int (ld_rainRate ld) / 100)
           (WXD_VALID OR WXD_ENGLISH OR 2) (rainrate w),
       solar :=
         cvt_int ''w/m2'' (ld_solarRad ld \<noteq> SIXTEEN_ONES) (ld_solarRad ld)
           (WXD_VALID OR WXD_METRIC OR 2) (solar w),
       rainday :=
         cvt_float ''in'' (ld_rainDay ld \<noteq> SIXTEEN_ONES) (real_of_int (ld_rainDay ld) / 100)
           (WXD_VALID OR WXD_ENGLISH OR 2) (rainday w),
       rainmonth :=
         cvt_float ''in'' (ld_rainMonth ld \<noteq> SIXTEEN_ONES) (real_of_int (ld_rainMonth ld) / 100)
           (WXD_VALID OR WXD_ENGLISH OR 2) (rainmonth w),
       rainyear :=
         cvt_float ''in'' (ld_rainYear ld \<noteq> SIXTEEN_ONES) (real_of_int (ld_rainYear ld) / 100)
           (WXD_VALID OR WXD_ENGLISH OR 2) (rainyear w)\<rparr>"

text \<open>
  \<^verbatim>\<open>cvtvploop2fwx\<close>: the gust tracker runs on \<^verbatim>\<open>windcur\<close> between the first
  and the second group of statements, and its result, unless null, is copied
  into \<^verbatim>\<open>windgust\<close>; \<^verbatim>\<open>wxcalcdewpoint\<close> comes last.
\<close>

definition cvtvploop2fwx :: "int \<Rightarrow> bool \<Rightarrow> byte list \<Rightarrow> gust_state \<Rightarrow> wxdat \<Rightarrow> error + (gust_state \<times> wxdat)" where
  "cvtvploop2fwx interval malloc_ok ld g w0 =
     (let w1 = cvt_head ld w0 in
      case wxcalcwindgust interval malloc_ok g (windcur w1) of
        Inl e \<Rightarrow> Inl e
      | Inr (g', wg) \<Rightarrow>
          let w2 = (case wg of None \<Rightarrow> w1 | Some x \<Rightarrow> w1\<lparr>windgust := x\<rparr>)
          in Inr (g', wxcalcdewpoint (cvt_hum_rain ld (cvt_wind_temp ld w2))))"

subsection \<open>The CSV log line (\<^verbatim>\<open>wxlog\<close>)\<close>

text \<open>
  \<^verbatim>\<open>printf\<close> conversions.  \<open>fmt_d\<close> is \<^verbatim>\<open>%d\<close> and \<^verbatim>\<open>%ld\<close>; \<open>fmt_f p\<close> is
  \<^verbatim>\<open>%.pf\<close>, which prints the value rounded to \<open>p\<close> decimals (the model rounds
  a tie upwards in magnitude, the C library rounds the binary value to even).
\<close>

fun dec_digits :: "nat \<Rightarrow> string" where
  "dec_digits n =
     (if n < 10 then [''0123456789'' ! n]
      else dec_digits (n div 10) @ [''0123456789'' ! (n mod 10)])"

declare dec_digits.simps [simp del]

definition fmt_d :: "int \<Rightarrow> string" where
  "fmt_d n = (if n < 0 then CHR ''-'' # dec_digits (nat (- n)) else dec_digits (nat n))"

definition fmt_f :: "nat \<Rightarrow> real \<Rightarrow> string" where
  "fmt_f p x =
     (let m = nat (round (\<bar>x\<bar> * 10 ^ p));
          frac = dec_digits (m mod 10 ^ p)
      in (if x < 0 then [CHR ''-''] else []) @ dec_digits (m div 10 ^ p) @
         (if p = 0 then [] else CHR ''.'' # replicate (p - length frac) CHR ''0'' @ frac))"

definition NUL :: char where
  "NUL = CHR 0x00"

text \<open>
  The buffer \<^verbatim>\<open>str\<close> is the list of the characters stored below the cursor
  \<^verbatim>\<open>s\<close>.  \<^verbatim>\<open>s += sprintf(s, ...)\<close> appends the text and leaves \<^verbatim>\<open>s\<close> on the
  terminator, which the next store overwrites.  The branch for an invalid field,
  \<^verbatim>\<open>*s++ = ','; *s++ = '\0';\<close>, stores a comma and a terminator and leaves
  \<^verbatim>\<open>s\<close> behind both.
\<close>

definition put_text :: "string \<Rightarrow> string \<Rightarrow> string" where
  "put_text buf txt = buf @ txt"

definition put_empty :: "string \<Rightarrow> string" where
  "put_empty buf = buf @ [CHR '','', NUL]"

definition put_float :: "nat \<Rightarrow> wxd \<Rightarrow> string \<Rightarrow> string" where
  "put_float p x buf =
     (if WXD_ISVALID x then put_text buf (fmt_f p (floatd x) @ '','') else put_empty buf)"

definition VERSION_MAJ :: int where "VERSION_MAJ = 0"
definition VERSION_MIN :: int where "VERSION_MIN = 5"

definition wxlog_buf :: "wxdat \<Rightarrow> string" where
  "wxlog_buf w =
     (let b0 = put_text [] (fmt_d VERSION_MAJ @ '','' @ fmt_d VERSION_MIN @ '','' @ fmt_d (time w) @ '','');
          b1 = put_float 3 (barometer w) b0;
          b2 = (if WXD_ISVALID (windspeed w)
                then put_float 0 (winddir w) (put_text b1 (fmt_f 0 (floatd (windspeed w)) @ '',''))
                else b1 @ [CHR '','', CHR '','', NUL]);
          b3 = put_float 0 (avgwindspeed w) b2;
          b4 = put_float 1 (indoortemp w) b3;
          b5 = put_float 1 (outdoortemp w) b4;
          b6 = put_float 1 (outdoordewpoint w) b5;
          b7 = put_float 0 (indoorhum w) b6;
          b8 = put_float 0 (outdoorhum w) b7;
          b9 = put_float 2 (rainrate w) b8;
          b10 = put_float 2 (rainday w) b9;
          b11 = put_float 2 (rainmonth w) b10;
          b12 = put_float 2 (rainyear w) b11;
          b13 = (if WXD_ISVALID (solar w) then put_text b12 (fmt_d (intd (solar w)) @ '','')
                 else put_empty b12)
      in b13)"

text \<open>What \<^verbatim>\<open>%s\<close> prints of a buffer: the characters before the first terminator.\<close>

definition c_str :: "string \<Rightarrow> string" where
  "c_str buf = takeWhile (\<lambda>c. c \<noteq> NUL) buf"

text \<open>
  \<^verbatim>\<open>wxlog\<close>: the text appended to the day's file by
  \<^verbatim>\<open>fprintf(file, "%s\n", str)\<close>, or \<open>None\<close> when \<^verbatim>\<open>fopen\<close> fails.  The file
  name, made by \<^verbatim>\<open>strftime\<close> from the local calendar date, is not modelled.
\<close>

definition wxlog :: "bool \<Rightarrow> wxdat \<Rightarrow> string option" where
  "wxlog fopen_ok w = (if fopen_ok then Some (c_str (wxlog_buf w) @ [CHR 0x0A]) else None)"

subsection \<open>The serial line (\<^verbatim>\<open>support.c\<close>)\<close>

text \<open>
  The station is a script of what the operating system returns.  \<open>rx\<close> lists
  what the successive \<^verbatim>\<open>read\<close> calls meet: an error (of \<^verbatim>\<open>read\<close> or of the
  \<^verbatim>\<open>wxsettimeout\<close> before it), or the next bytes of the line and the seconds
  that pass until they arrive.  The line is in raw mode with \<^verbatim>\<open>VMIN = 0\<close> and
  \<^verbatim>\<open>VTIME\<close> set from \<^verbatim>\<open>timeout\<close>: a \<^verbatim>\<open>read\<close> returns the bytes that
  arrive before its timer expires, at most as many as it asked for (the others
  stay pending), and returns 0 when the timer expires first.  When the script is
  used up the line is silent.  \<open>flush_fail\<close> and \<open>write_rc\<close> list the results
  of the successive \<^verbatim>\<open>wxflush\<close> and \<^verbatim>\<open>write\<close> calls; when used up, both
  succeed.  Every byte of an uninitialised local buffer reads as \<open>junk\<close>.
  \<open>trace\<close> records what the program did.
\<close>

datatype rdcall = ReadErr | ReadData "byte list" nat

datatype event = EvFlush | EvWrite string | EvRead nat int

record tty =
  clock :: int
  rx :: "rdcall list"
  flush_fail :: "bool list"
  write_rc :: "int list"
  junk :: byte
  trace :: "event list"

definition MAX_TIMEOUT :: int where "MAX_TIMEOUT = 30"
definition MAX_READ :: nat where "MAX_READ = 256"
definition ACK :: byte where "ACK = 0x06"

text \<open>
  The loop \<^verbatim>\<open>while (remaining > 0 && timeout > 0)\<close> of \<^verbatim>\<open>wxread\<close>.  The result
  holds the error flag (the \<^verbatim>\<open>return -1\<close> inside the loop), \<^verbatim>\<open>remaining\<close> and
  the bytes stored so far.
\<close>

function wxread_loop :: "tty \<Rightarrow> int \<Rightarrow> byte list \<Rightarrow> nat \<Rightarrow> int \<Rightarrow> tty \<times> bool \<times> nat \<times> byte list" where
  "wxread_loop t expire got remaining timeout =
     (if remaining > 0 \<and> timeout > 0 then
        (case rx t of
           [] \<Rightarrow>
             wxread_loop (t\<lparr>clock := clock t + timeout\<rparr>) expire got remaining
               (expire - (clock t + timeout))
         | ReadErr # rest \<Rightarrow> (t\<lparr>rx := rest\<rparr>, True, remaining, got)
         | ReadData bs dt # rest \<Rightarrow>
             if int dt \<ge> timeout then
               wxread_loop (t\<lparr>clock := clock t + timeout, rx := ReadData bs (dt - nat timeout) # rest\<rparr>)
                 expire got remaining (expire - (clock t + timeout))
             else
               wxread_loop
                 (t\<lparr>clock := clock t + int dt,
                    rx := (if drop remaining bs = [] then rest else ReadData (drop remaining bs) 0 # rest)\<rparr>)
                 expire (got @ take remaining bs) (remaining - length (take remaining bs))
                 (expire - (clock t + int dt)))
      else (t, False, remaining, got))"
  by pat_completeness auto
termination
  by (relation "measures [\<lambda>(t, expire, got, remaining, timeout). length (rx t),
                          \<lambda>(t, expire, got, remaining, timeout). remaining,
                          \<lambda>(t, expire, got, remaining, timeout).
                             nat (expire - clock t) + (if timeout > 0 then 1 else 0)]")
     (auto split: if_splits)

declare wxread_loop.simps [simp del]

text \<open>
  \<^verbatim>\<open>wxread(fd, buf, len, timeout)\<close>: the result is the return value and the
  buffer, whose first bytes are the ones read and whose rest is as it was.
\<close>

definition wxread :: "tty \<Rightarrow> byte list \<Rightarrow> nat \<Rightarrow> int \<Rightarrow> tty \<times> int \<times> byte list" where
  "wxread t buf len timeout =
     (if timeout \<le> 0 \<or> timeout > MAX_TIMEOUT then (t, -1, buf)
      else if len = 0 \<or> len > MAX_READ then (t, -1, buf)
      else
        (case wxread_loop (t\<lparr>trace := trace t @ [EvRead len timeout]\<rparr>)
                (clock t + timeout) [] len timeout of
           (t', err, remaining, got) \<Rightarrow>
             (t', (if err then -1 else int len - int remaining), got @ drop (length got) buf)))"

definition wxflush :: "tty \<Rightarrow> tty \<times> int" where
  "wxflush t =
     (case flush_fail t of
        [] \<Rightarrow> (t\<lparr>trace := trace t @ [EvFlush]\<rparr>, 0)
      | b # bs \<Rightarrow> (t\<lparr>flush_fail := bs, trace := trace t @ [EvFlush]\<rparr>, if b then -1 else 0))"

text \<open>The system call \<^verbatim>\<open>write(fd, buf, len)\<close> and its return value.\<close>

definition tty_write :: "tty \<Rightarrow> string \<Rightarrow> tty \<times> int" where
  "tty_write t bs =
     (case write_rc t of
        [] \<Rightarrow> (t\<lparr>trace := trace t @ [EvWrite bs]\<rparr>, int (length bs))
      | r # rs \<Rightarrow> (t\<lparr>write_rc := rs, trace := trace t @ [EvWrite bs]\<rparr>, r))"

text \<open>\<^verbatim>\<open>wxwakeup\<close>; carriage return is 13 and newline is 10.\<close>

definition wxwakeup :: "tty \<Rightarrow> tty \<times> int" where
  "wxwakeup t =
     (case wxflush t of (t1, frc) \<Rightarrow>
        if frc \<noteq> 0 then (t1, -1)
        else case tty_write t1 [CHR 0x0A] of (t2, wrc) \<Rightarrow>
          if wrc \<noteq> 1 then (t2, -1)
          else case wxread t2 (replicate 2 (junk t2)) 2 5 of (t3, rrc, resp) \<Rightarrow>
            if rrc = -1 then (t3, -1)
            else if (resp ! 0 \<noteq> 13 \<and> resp ! 1 \<noteq> 10) \<and> (resp ! 0 \<noteq> 10 \<and> resp ! 1 \<noteq> 13)
                 then (t3, -1)
                 else (t3, 0))"

text \<open>
  \<^verbatim>\<open>wxgetack\<close>: the \<^verbatim>\<open>do ... while (ackbuf != ACK)\<close> loop, entered with the
  current \<^verbatim>\<open>i\<close> and \<^verbatim>\<open>ackbuf\<close>.
\<close>

function wxgetack_loop :: "tty \<Rightarrow> int \<Rightarrow> byte \<Rightarrow> tty \<times> int" where
  "wxgetack_loop t i ackbuf =
     (case wxread t [ackbuf] 1 1 of (t', rrc, buf) \<Rightarrow>
        if rrc = -1 then (t', -1)
        else if i \<ge> 5 then (t', -1)
        else if buf ! 0 \<noteq> ACK then wxgetack_loop t' (i + 1) (buf ! 0)
        else (t', 0))"
  by pat_completeness auto
termination
  by (relation "measure (\<lambda>(t, i, ackbuf). nat (5 - i))") auto

declare wxgetack_loop.simps [simp del]

definition wxgetack :: "tty \<Rightarrow> tty \<times> int" where
  "wxgetack t = wxgetack_loop t 0 (junk t)"

definition wxcmd :: "tty \<Rightarrow> string \<Rightarrow> tty \<times> int" where
  "wxcmd t cmd =
     (case tty_write t cmd of (t1, rc) \<Rightarrow>
        if rc = -1 then (t1, -1)
        else if rc \<noteq> int (length cmd) then (t1, -1)
        else case wxgetack t1 of (t2, arc) \<Rightarrow>
          if arc \<noteq> 0 then (t2, -1) else (t2, 0))"

subsection \<open>One polling cycle (\<^verbatim>\<open>wxgetloop\<close>)\<close>

definition VPLOOPCMD :: string where
  "VPLOOPCMD = ''LOOP 01'' @ [CHR 0x0A]"

text \<open>
  \<^verbatim>\<open>for (i = 0; i < 4; ++i) { if (wxwakeup(fd) == 0) break; }\<close> with \<open>n\<close>
  iterations left.
\<close>

fun wakeup_loop :: "nat \<Rightarrow> tty \<Rightarrow> tty" where
  "wakeup_loop 0 t = t"
| "wakeup_loop (Suc n) t =
     (case wxwakeup t of (t', rc) \<Rightarrow> if rc = 0 then t' else wakeup_loop n t')"

text \<open>
  \<^verbatim>\<open>wxgetloop\<close>.  The routine \<^verbatim>\<open>wxcrc\<close> of \<^verbatim>\<open>crc.c\<close> is a parameter: it is
  applied to the \<^verbatim>\<open>rc\<close> bytes that start at the address it is given,
  \<^verbatim>\<open>(unsigned char *)&ld + 1\<close>, which are the record without its first byte
  and the byte that follows the record in memory.
\<close>

definition crc_region :: "byte list \<Rightarrow> byte \<Rightarrow> nat \<Rightarrow> byte list" where
  "crc_region ld beyond rc = take rc (drop 1 (ld @ [beyond]))"

text \<open>
  The statements of \<^verbatim>\<open>wxgetloop\<close> up to the check of the length: the wake-up
  attempts, the command and the read of the record.  The result holds the
  record when \<^verbatim>\<open>wxread\<close> returned \<^verbatim>\<open>sizeof(vploopdata_t)\<close>, and \<open>None\<close> when
  the function returns before.
\<close>

definition loop_fetch :: "tty \<Rightarrow> tty \<times> byte list option" where
  "loop_fetch t =
     (let t1 = wakeup_loop 4 t;
          (t2, crc) = wxcmd t1 VPLOOPCMD
      in if crc \<noteq> 0 then (t2, None)
         else let (t3, rc, ld) = wxread t2 (replicate VPLOOPSIZE (junk t2)) VPLOOPSIZE 10
              in if rc = -1 then (t3, None)
                 else if rc \<noteq> int VPLOOPSIZE then (t3, None)
                 else (t3, Some ld))"

definition wxgetloop :: "(byte list \<Rightarrow> int) \<Rightarrow> int \<Rightarrow> bool \<Rightarrow> tty \<Rightarrow> gust_state \<Rightarrow> wxdat
    \<Rightarrow> error + (tty \<times> gust_state \<times> wxdat)" where
  "wxgetloop wxcrc interval malloc_ok t g w =
     (case loop_fetch t of
        (t3, None) \<Rightarrow> Inr (t3, g, w)
      | (t3, Some ld) \<Rightarrow>
          if wxcrc (crc_region ld (junk t3) VPLOOPSIZE) \<noteq> 0 then Inr (t3, g, w)
          else (case cvtvploop2fwx interval malloc_ok ld g w of
                  Inl e \<Rightarrow> Inl e
                | Inr (g', w') \<Rightarrow> Inr (t3, g', w')))"

subsection \<open>The CWOP uplink (\<^verbatim>\<open>wxsendcwop\<close>)\<close>

record cwop_conf =
  cwopsvr :: string
  cwopuser :: string
  cwoploc :: string

text \<open>
  What the network does during one call: the address \<^verbatim>\<open>gethostbyname\<close> finds
  (or \<open>None\<close> for its null result), the value of \<^verbatim>\<open>inet_addr\<close>, and whether
  \<^verbatim>\<open>socket\<close>, \<^verbatim>\<open>connect\<close> and the two \<^verbatim>\<open>write\<close> calls succeed.
\<close>

record net =
  gethostbyname :: "32 word option"
  inet_addr :: "32 word"
  socket_ok :: bool
  connect_ok :: bool
  login_write_ok :: bool
  packet_write_ok :: bool

text \<open>
  The library and system calls of one call, in order; the flag of a call is
  its success.  The text of the weather packet is not modelled.
\<close>

datatype netev =
    NetResolve string
  | NetSocket bool
  | NetConnect "32 word" bool
  | NetWaitSrv
  | NetWriteLogin string bool
  | NetWritePacket bool
  | NetClose

definition INADDR_NONE :: "32 word" where
  "INADDR_NONE = 0xffffffff"

definition cwop_login :: "cwop_conf \<Rightarrow> string" where
  "cwop_login cf =
     ''user '' @ cwopuser cf @ '' pass -1 vers fwx '' @ fmt_d VERSION_MAJ @ ''.'' @ fmt_d VERSION_MIN
       @ [CHR 0x0D, CHR 0x0A]"

text \<open>
  The address that \<^verbatim>\<open>wxsendcwop\<close> stores in \<^verbatim>\<open>sin.sin_addr.s_addr\<close>: the first
  address of \<^verbatim>\<open>gethostbyname\<close>, or the value of \<^verbatim>\<open>inet_addr\<close> when that
  returns null.
\<close>

definition s_addr :: "net \<Rightarrow> 32 word" where
  "s_addr nw = (case gethostbyname nw of Some a \<Rightarrow> a | None \<Rightarrow> inet_addr nw)"

text \<open>
  \<^verbatim>\<open>wxsendcwop\<close>: \<open>now\<close> is the value of \<^verbatim>\<open>time\<close>, \<open>lasthere\<close> the static
  variable; the result is the new \<^verbatim>\<open>lasthere\<close> and the system calls made.
  (The \<^verbatim>\<open>return\<close> after a negative \<^verbatim>\<open>snprintf\<close> is left out: this format
  does not fail.)
\<close>

definition wxsendcwop :: "cwop_conf \<Rightarrow> net \<Rightarrow> int \<Rightarrow> int \<Rightarrow> int \<times> netev list" where
  "wxsendcwop cf nw now lasthere =
     (if cwopsvr cf = [] \<or> cwopuser cf = [] \<or> cwoploc cf = [] then (lasthere, [])
      else if now - lasthere < 5 * 60 then (lasthere, [])
      else
        let addr = s_addr nw in
        if addr = INADDR_NONE then (lasthere, [NetResolve (cwopsvr cf)])
        else if \<not> socket_ok nw then (lasthere, [NetResolve (cwopsvr cf), NetSocket False])
        else if \<not> connect_ok nw then
          (lasthere, [NetResolve (cwopsvr cf), NetSocket True, NetConnect addr False, NetClose])
        else if \<not> login_write_ok nw then
          (lasthere, [NetResolve (cwopsvr cf), NetSocket True, NetConnect addr True, NetWaitSrv,
                      NetWriteLogin (cwop_login cf) False, NetClose])
        else if \<not> packet_write_ok nw then
          (lasthere, [NetResolve (cwopsvr cf), NetSocket True, NetConnect addr True, NetWaitSrv,
                      NetWriteLogin (cwop_login cf) True, NetWaitSrv, NetWritePacket False, NetClose])
        else
          (now, [NetResolve (cwopsvr cf), NetSocket True, NetConnect addr True, NetWaitSrv,
                 NetWriteLogin (cwop_login cf) True, NetWaitSrv, NetWritePacket True, NetClose]))"

text \<open>The connections opened in a list of system calls: the successful \<^verbatim>\<open>connect\<close> calls.\<close>

fun is_connection :: "netev \<Rightarrow> bool" where
  "is_connection (NetConnect a ok) = ok"
| "is_connection e = False"

definition connections :: "netev list \<Rightarrow> nat" where
  "connections evs = length (filter is_connection evs)"

text \<open>Two calls of \<^verbatim>\<open>wxsendcwop\<close> in one process, at the times \<open>t1\<close> and \<open>t2\<close>.\<close>

definition cwop_twice :: "cwop_conf \<Rightarrow> net \<Rightarrow> int \<Rightarrow> net \<Rightarrow> int \<Rightarrow> int \<Rightarrow> int \<times> netev list" where
  "cwop_twice cf n1 t1 n2 t2 lasthere =
     (let (l1, e1) = wxsendcwop cf n1 t1 lasthere;
          (l2, e2) = wxsendcwop cf n2 t2 l1
      in (l2, e1 @ e2))"

section \<open>Properties\<close>

subsection \<open>Sizing of the gust buffer\<close>

lemma walen_loop_pos:
  "0 < i \<Longrightarrow> \<exists>k. walen_loop w i = Some (w * 2 ^ k) \<and> i < 2 ^ k \<and> 2 ^ k \<le> 2 * i"
proof (induction "nat i" arbitrary: i w rule: less_induct)
  case less
  show ?case
  proof (cases "i div 2 = 0")
    case True
    with less.prems have "i = 1" by presburger
    then have "walen_loop w i = Some (w * 2 ^ 1)"
      by (subst walen_loop.simps) simp
    then show ?thesis using \<open>i = 1\<close> by (intro exI[of _ 1]) simp
  next
    case False
    with less.prems have pos: "0 < i div 2" by presburger
    from less.prems have "i div 2 < i" by presburger
    with less.prems have lt: "nat (i div 2) < nat i" by (simp add: nat_mono_iff)
    from less.hyps[OF lt pos, of "w * 2"] obtain k where
      k: "walen_loop (w * 2) (i div 2) = Some (w * 2 * 2 ^ k)" "i div 2 < 2 ^ k" "2 ^ k \<le> 2 * (i div 2)"
      by blast
    have "walen_loop w i = Some (w * 2 ^ Suc k)"
      using False k(1) by (subst walen_loop.simps) (simp add: mult.assoc)
    moreover have "i < 2 ^ Suc k" using k(2) by (simp; presburger)
    moreover have "(2::int) ^ Suc k \<le> 2 * i" using k(3) by (simp; presburger)
    ultimately show ?thesis by blast
  qed
qed

lemma c_div_pos: "0 < b \<Longrightarrow> c_div 600 b = 600 div b"
  by (simp add: c_div_def)

lemma gust_sizing_pos:
  assumes "0 < interval"
  shows "\<exists>k. gust_sizing interval = Inr (600 div interval + 1, 2 ^ k)
           \<and> 600 div interval + 1 < 2 ^ k \<and> 2 ^ k \<le> 2 * (600 div interval + 1)"
proof -
  have "0 \<le> 600 div interval" using assms by (simp add: pos_imp_zdiv_nonneg_iff)
  then have "0 < 600 div interval + 1" by simp
  from walen_loop_pos[OF this, of 1] obtain k where
    "walen_loop 1 (600 div interval + 1) = Some (2 ^ k)"
    "600 div interval + 1 < 2 ^ k" "2 ^ k \<le> 2 * (600 div interval + 1)"
    by auto
  then show ?thesis
    using assms by (intro exI[of _ k]) (simp add: gust_sizing_def c_div_pos)
qed

lemma gust_record_static:
  "gust_record g wp = Inr (g', r) \<Longrightarrow>
     walen g' = walen g \<and> tenmin g' = tenmin g \<and> length (warr g') = length (warr g)"
  by (auto simp: gust_record_def Let_def split: option.splits)

text \<open>
  Claim C5, as the code has it.  For a positive sampling interval the capacity
  chosen on the first call is the smallest power of two strictly greater than
  \<open>600 div interval + 1\<close>: it is a power of two, it is greater than that
  number, and its half is not.  The first call that returns leaves this capacity
  and a buffer of this length in the tracker.
\<close>

theorem gust_capacity_above_window:
  "0 < interval \<Longrightarrow>
     \<exists>k. gust_sizing interval = Inr (600 div interval + 1, 2 ^ k)
        \<and> 600 div interval + 1 < 2 ^ k \<and> 2 ^ k \<le> 2 * (600 div interval + 1)
        \<and> (\<forall>wp g' r. wxcalcwindgust interval True gust_init wp = Inr (g', r) \<longrightarrow>
              walen g' = 2 ^ k \<and> int (length (warr g')) = 2 ^ k
              \<and> tenmin g' = 600 div interval + 1)"
proof -
  assume pos: "0 < interval"
  from gust_sizing_pos[OF pos] obtain k where
    k: "gust_sizing interval = Inr (600 div interval + 1, 2 ^ k)"
       "600 div interval + 1 < 2 ^ k" "2 ^ k \<le> 2 * (600 div interval + 1)"
    by blast
  have "walen g' = 2 ^ k \<and> int (length (warr g')) = 2 ^ k \<and> tenmin g' = 600 div interval + 1"
    if "wxcalcwindgust interval True gust_init wp = Inr (g', r)" for wp g' r
    using that k(1) gust_record_static[of _ wp g' r]
    by (fastforce simp: wxcalcwindgust_def gust_init_def)
  with k show ?thesis by blast
qed

theorem gust_capacity_above_window_witness:
  "(0::int) < 30 \<and>
   (\<exists>k. gust_sizing 30 = Inr (21, 2 ^ k) \<and> (21::int) < 2 ^ k \<and> (2::int) ^ k \<le> 42)"
  using gust_capacity_above_window[of 30] by auto

text \<open>
  Claim C5, as stated, fails at the sampling interval of 200 seconds: the
  window is \<open>600 div 200 + 1 = 4\<close> slots, itself a power of two, and the
  capacity chosen is 8.
\<close>

theorem gust_capacity_counterexample:
  "gust_sizing 200 = Inr (4, 8) \<and> (4::int) = 2 ^ 2 \<and> (4::int) < 8"
  by (simp add: gust_sizing_def c_div_def walen_loop.simps)

subsection \<open>The gust scan\<close>

lemmas gust_eval =
  wxcalcwindgust_def gust_record_def gust_init_def wind_zero_def Let_def gust_scan.simps
  window_idx_def

lemma gust_sizing_30: "gust_sizing 30 = Inr (21, 32)"
  by (simp add: gust_sizing_def c_div_def walen_loop.simps)

lemma gust_sizing_61: "gust_sizing 61 = Inr (10, 16)"
  by (simp add: gust_sizing_def c_div_def walen_loop.simps)

text \<open>
  What the scan computes, from any state of its loop: either no slot of the
  rest of the window exceeds \<^verbatim>\<open>gust\<close> and \<^verbatim>\<open>found\<close> is returned as it was, or
  the result is the slot of the first step whose speed is the greatest of the
  rest of the window.
\<close>

lemma gust_scan_result:
  "(gust_scan arr len f tm i gust found = found
      \<and> (\<forall>k. i \<le> k \<and> k < tm \<longrightarrow> speed (arr ! nat (window_idx len f k)) \<le> gust))
   \<or> (\<exists>j. i \<le> j \<and> j < tm
          \<and> gust_scan arr len f tm i gust found = Some (window_idx len f j)
          \<and> gust < speed (arr ! nat (window_idx len f j))
          \<and> (\<forall>k. i \<le> k \<and> k < tm \<longrightarrow>
                 speed (arr ! nat (window_idx len f k)) \<le> speed (arr ! nat (window_idx len f j)))
          \<and> (\<forall>k. i \<le> k \<and> k < j \<longrightarrow>
                 speed (arr ! nat (window_idx len f k)) < speed (arr ! nat (window_idx len f j))))"
proof (induction arr len f tm i gust found rule: gust_scan.induct)
  case (1 arr len f tm i gust found)
  let ?s = "\<lambda>k. speed (arr ! nat (window_idx len f k))"
  show ?case
  proof (cases "i < tm")
    case False
    then show ?thesis by (subst gust_scan.simps) simp
  next
    case True
    show ?thesis
    proof (cases "?s i > gust")
      case hi: True
      have eq: "gust_scan arr len f tm i gust found
                  = gust_scan arr len f tm (i + 1) (?s i) (Some (window_idx len f i))"
        using True hi by (subst gust_scan.simps) simp
      from "1.IH"(1)[OF True hi] consider
          (stay) "gust_scan arr len f tm (i + 1) (?s i) (Some (window_idx len f i)) = Some (window_idx len f i)"
                 "\<forall>k. i + 1 \<le> k \<and> k < tm \<longrightarrow> ?s k \<le> ?s i"
        | (move) j where "i + 1 \<le> j" "j < tm"
                 "gust_scan arr len f tm (i + 1) (?s i) (Some (window_idx len f i)) = Some (window_idx len f j)"
                 "?s i < ?s j" "\<forall>k. i + 1 \<le> k \<and> k < tm \<longrightarrow> ?s k \<le> ?s j"
                 "\<forall>k. i + 1 \<le> k \<and> k < j \<longrightarrow> ?s k < ?s j"
        by blast
      then show ?thesis
      proof cases
        case stay
        have "\<forall>k. i \<le> k \<and> k < tm \<longrightarrow> ?s k \<le> ?s i"
        proof (intro allI impI)
          fix k assume "i \<le> k \<and> k < tm"
          then consider "k = i" | "i + 1 \<le> k \<and> k < tm" by linarith
          then show "?s k \<le> ?s i" using stay(2) by cases auto
        qed
        with stay(1) eq hi True show ?thesis
          by (intro disjI2 exI[of _ i]) auto
      next
        case move
        have a: "\<forall>k. i \<le> k \<and> k < tm \<longrightarrow> ?s k \<le> ?s j"
        proof (intro allI impI)
          fix k assume "i \<le> k \<and> k < tm"
          then consider "k = i" | "i + 1 \<le> k \<and> k < tm" by linarith
          then show "?s k \<le> ?s j" using move(4,5) by cases auto
        qed
        have b: "\<forall>k. i \<le> k \<and> k < j \<longrightarrow> ?s k < ?s j"
        proof (intro allI impI)
          fix k assume "i \<le> k \<and> k < j"
          then consider "k = i" | "i + 1 \<le> k \<and> k < j" by linarith
          then show "?s k < ?s j" using move(4,6) by cases auto
        qed
        from move(1,2,3,4) hi eq a b show ?thesis
          by (intro disjI2 exI[of _ j]) auto
      qed
    next
      case lo: False
      have eq: "gust_scan arr len f tm i gust found = gust_scan arr len f tm (i + 1) gust found"
        using True lo by (subst gust_scan.simps) simp
      from "1.IH"(2)[OF True lo] consider
          (stay) "gust_scan arr len f tm (i + 1) gust found = found"
                 "\<forall>k. i + 1 \<le> k \<and> k < tm \<longrightarrow> ?s k \<le> gust"
        | (move) j where "i + 1 \<le> j" "j < tm"
                 "gust_scan arr len f tm (i + 1) gust found = Some (window_idx len f j)"
                 "gust < ?s j" "\<forall>k. i + 1 \<le> k \<and> k < tm \<longrightarrow> ?s k \<le> ?s j"
                 "\<forall>k. i + 1 \<le> k \<and> k < j \<longrightarrow> ?s k < ?s j"
        by blast
      then show ?thesis
      proof cases
        case stay
        have "\<forall>k. i \<le> k \<and> k < tm \<longrightarrow> ?s k \<le> gust"
        proof (intro allI impI)
          fix k assume "i \<le> k \<and> k < tm"
          then consider "k = i" | "i + 1 \<le> k \<and> k < tm" by linarith
          then show "?s k \<le> gust" using stay(2) lo by cases auto
        qed
        with stay(1) eq show ?thesis by auto
      next
        case move
        have a: "\<forall>k. i \<le> k \<and> k < tm \<longrightarrow> ?s k \<le> ?s j"
        proof (intro allI impI)
          fix k assume "i \<le> k \<and> k < tm"
          then consider "k = i" | "i + 1 \<le> k \<and> k < tm" by linarith
          then show "?s k \<le> ?s j" using move(4,5) lo by cases auto
        qed
        have b: "\<forall>k. i \<le> k \<and> k < j \<longrightarrow> ?s k < ?s j"
        proof (intro allI impI)
          fix k assume "i \<le> k \<and> k < j"
          then consider "k = i" | "i + 1 \<le> k \<and> k < j" by linarith
          then show "?s k < ?s j" using move(4,6) lo by cases auto
        qed
        from move(1,2,3,4) eq a b show ?thesis
          by (intro disjI2 exI[of _ j]) auto
      qed
    qed
  qed
qed

lemma gust_scan_calm:
  assumes "\<forall>k. 0 \<le> k \<and> k < tm \<longrightarrow> speed (arr ! nat (window_idx len f k)) \<le> 0"
  shows "gust_scan arr len f tm 0 0 None = None"
  using gust_scan_result[of arr len f tm 0 0 None]
proof (elim disjE conjE exE)
  assume "gust_scan arr len f tm 0 0 None = None"
  then show ?thesis .
next
  fix j assume "0 \<le> j" "j < tm" "0 < speed (arr ! nat (window_idx len f j))"
  moreover from this assms have "speed (arr ! nat (window_idx len f j)) \<le> 0" by blast
  ultimately show ?thesis by simp
qed

lemma gust_scan_first_max:
  assumes "gust_scan arr len f tm 0 0 None = Some x"
  shows "\<exists>j. 0 \<le> j \<and> j < tm \<and> x = window_idx len f j
          \<and> 0 < speed (arr ! nat (window_idx len f j))
          \<and> (\<forall>k. 0 \<le> k \<and> k < tm \<longrightarrow>
                 speed (arr ! nat (window_idx len f k)) \<le> speed (arr ! nat (window_idx len f j)))
          \<and> (\<forall>k. 0 \<le> k \<and> k < j \<longrightarrow>
                 speed (arr ! nat (window_idx len f k)) < speed (arr ! nat (window_idx len f j)))"
  using gust_scan_result[of arr len f tm 0 0 None]
proof (elim disjE conjE exE)
  assume "gust_scan arr len f tm 0 0 None = None"
  with assms show ?thesis by simp
next
  fix j
  assume j: "0 \<le> j" "j < tm" "gust_scan arr len f tm 0 0 None = Some (window_idx len f j)"
    "0 < speed (arr ! nat (window_idx len f j))"
    "\<forall>k. 0 \<le> k \<and> k < tm \<longrightarrow>
        speed (arr ! nat (window_idx len f k)) \<le> speed (arr ! nat (window_idx len f j))"
    "\<forall>k. 0 \<le> k \<and> k < j \<longrightarrow>
        speed (arr ! nat (window_idx len f k)) < speed (arr ! nat (window_idx len f j))"
  from j(3) assms have "x = window_idx len f j" by simp
  with j(1,2,4,5,6) show ?thesis by (intro exI[of _ j]) simp
qed

lemma window_idx_range:
  assumes "0 < len"
  shows "0 \<le> window_idx len f k \<and> window_idx len f k < len"
proof -
  from assms have n: "0 \<le> len - 1" by simp
  have "window_idx len f k \<le> len - 1"
    unfolding window_idx_def using n by (rule AND_upper2)
  moreover have "0 \<le> window_idx len f k"
    unfolding window_idx_def using n by simp
  ultimately show ?thesis by simp
qed

text \<open>
  The first call with a reading that is not above 0 leaves \<^verbatim>\<open>found\<close>
  unassigned at every positive sampling interval.
\<close>

lemma gust_calm_first_call_general:
  assumes "0 < interval" "speed wp \<le> 0"
  shows "wxcalcwindgust interval True gust_init wp = Inl FoundUnassigned"
proof -
  from gust_sizing_pos[OF assms(1)] obtain k where
    k: "gust_sizing interval = Inr (600 div interval + 1, 2 ^ k)" by blast
  define len :: int where "len = 2 ^ k"
  define arr where "arr = (replicate (nat len) wind_zero)[0 := wp]"
  have pos: "0 < len" by (simp add: len_def)
  have slot: "speed (arr ! nat (window_idx len f j)) \<le> 0" for f j
  proof -
    from window_idx_range[OF pos, of f j]
    have "nat (window_idx len f j) < length arr" by (simp add: arr_def)
    then show ?thesis using assms(2)
      by (cases "nat (window_idx len f j) = 0") (simp_all add: wind_zero_def arr_def)
  qed
  have scan: "gust_scan arr len f tm 0 0 None = None" for f tm
    by (rule gust_scan_calm) (simp add: slot)
  have "wxcalcwindgust interval True gust_init wp =
          gust_record \<lparr>warr = replicate (nat len) wind_zero, walen = len, waidx = 0,
                       tenmin = 600 div interval + 1\<rparr> wp"
    by (simp add: wxcalcwindgust_def gust_init_def k len_def)
  also have "\<dots> = Inl FoundUnassigned"
    unfolding gust_record_def Let_def by (simp add: scan[unfolded arr_def])
  finally show ?thesis .
qed

text \<open>
  Claim C10 fails on the first call with a calm reading, at the default
  sampling interval: no slot of the zeroed buffer has a speed above 0, so the
  scan never assigns \<^verbatim>\<open>found\<close>, and \<^verbatim>\<open>&warr[found]\<close> reads it.
\<close>

theorem gust_calm_first_call:
  "wxcalcwindgust 30 True gust_init \<lparr>speed = 0, direction = 0\<rparr> = Inl FoundUnassigned"
  by (simp add: gust_eval gust_sizing_30)

text \<open>
  The scenario of claim C6, with a window of 10 slots (sampling interval 61
  seconds): ten readings of 5, one of 40, twelve of 5.  The gust is 40 in the
  cycle that records it and in the nine that follow, and 5 before and after.
\<close>

lemma gust_spike_scenario:
  "map_sum id (map speed \<circ> snd)
     (gust_feed 61 gust_init
        (map (\<lambda>s. \<lparr>speed = s, direction = 0\<rparr>)
           [5, 5, 5, 5, 5, 5, 5, 5, 5, 5, 40, 5, 5, 5, 5, 5, 5, 5, 5, 5, 5, 5, 5]))
   = Inr [5, 5, 5, 5, 5, 5, 5, 5, 5, 5, 40, 40, 40, 40, 40, 40, 40, 40, 40, 40, 5, 5, 5]"
  by (simp add: gust_eval gust_sizing_61)

text \<open>
  Claim C6 fails where claim C10 does: when every slot of the window holds
  speed 0 the call returns no element of the window.  With a window of 10
  slots, a reading of 40 followed by ten calm readings: the eleventh call scans
  ten calm slots and leaves \<^verbatim>\<open>found\<close> unassigned.
\<close>

theorem gust_calm_window:
  "gust_feed 61 gust_init
     (\<lparr>speed = 40, direction = 0\<rparr> # replicate 10 \<lparr>speed = 0, direction = 0\<rparr>)
   = Inl FoundUnassigned"
  by (simp add: gust_eval gust_sizing_61 numeral_eq_Suc)

subsection \<open>The gust tracker against the specification\<close>

lemma and_pow2_minus1: "(x :: int) AND (2 ^ k - 1) = x mod 2 ^ k"
  by (simp flip: mask_eq_exp_minus_1 take_bit_eq_mask add: take_bit_eq_mod)

lemma mod_shift_ne:
  assumes "0 < (d :: int)" "d < L" "0 \<le> i" "i < L"
  shows "(i - d) mod L \<noteq> i"
proof
  assume "(i - d) mod L = i"
  with assms have "(i - d) mod L = i mod L" by simp
  then have "L dvd (i - d) - i" by (simp only: mod_eq_dvd_iff)
  then have "L dvd d" by simp
  with assms(1,2) show False using zdvd_not_zless by blast
qed

lemma ring_slot:
  assumes inv: "ring_inv g hist" and d: "d < length (warr g)"
  shows "(warr g)[nat (waidx g) := wp] ! nat ((waidx g - int d) mod walen g)
           = (if d < length (wp # hist) then (wp # hist) ! d else wind_zero)"
proof -
  from inv have len: "int (length (warr g)) = walen g" and i0: "0 \<le> waidx g" and i1: "waidx g < walen g"
    by (simp_all add: ring_inv_def)
  from len i0 i1 have il: "nat (waidx g) < length (warr g)" by linarith
  show ?thesis
  proof (cases d)
    case 0
    with il i0 i1 show ?thesis by simp
  next
    case (Suc d')
    from d Suc len have dl: "0 < int d" "int d < walen g" by simp_all
    have ne: "(waidx g - int d) mod walen g \<noteq> waidx g"
      using dl i0 i1 by (rule mod_shift_ne)
    have r: "0 \<le> (waidx g - int d) mod walen g" using i0 i1 by simp
    from ne r i0 have "nat (waidx g) \<noteq> nat ((waidx g - int d) mod walen g)" by simp
    then have "(warr g)[nat (waidx g) := wp] ! nat ((waidx g - int d) mod walen g)
               = warr g ! nat ((waidx g - int d) mod walen g)"
      by (rule nth_list_update_neq)
    also have "waidx g - int d = waidx g - 1 - int d'" using Suc by simp
    also from inv d Suc have "warr g ! nat ((waidx g - 1 - int d') mod walen g)
               = (if d' < length hist then hist ! d' else wind_zero)"
      by (simp add: ring_inv_def)
    finally show ?thesis using Suc by (simp add: diff_diff_eq)
  qed
qed

lemma recent_window_length: "length (recent_window tm hist) = tm"
  by (simp add: recent_window_def)

lemma recent_window_nth:
  assumes "j < tm"
  shows "recent_window tm hist ! j
           = (if tm - 1 - j < length hist then hist ! (tm - 1 - j) else wind_zero)"
proof -
  define d where "d = tm - Suc j"
  from assms have d: "d < tm" by (simp add: d_def)
  have l: "length (take tm (hist @ replicate tm wind_zero)) = tm" by simp
  from assms have "recent_window tm hist ! j = take tm (hist @ replicate tm wind_zero) ! d"
    unfolding recent_window_def d_def by (subst rev_nth) (simp_all only: l)
  also from d have "\<dots> = (hist @ replicate tm wind_zero) ! d" by (rule nth_take)
  also from d have "\<dots> = (if d < length hist then hist ! d else wind_zero)"
    by (simp add: nth_append)
  finally show ?thesis by (simp add: d_def)
qed

lemma mod_pred_shift: "((w + 1) mod L - 1 - int d) mod L = (w - int d) mod (L :: int)"
proof -
  have "((w + 1) mod L - (1 + int d)) mod L = ((w + 1) - (1 + int d)) mod L"
    by (rule mod_diff_left_eq)
  then show ?thesis by (simp add: diff_diff_eq)
qed

lemma ring_window_slot:
  assumes inv: "ring_inv g hist" and j: "j < nat (tenmin g)"
  shows "(warr g)[nat (waidx g) := wp]
            ! nat (window_idx (walen g)
                     ((((waidx g + 1) AND (walen g - 1)) + (walen g - tenmin g)) AND (walen g - 1))
                     (int j))
         = recent_window (nat (tenmin g)) (wp # hist) ! j"
proof -
  from inv obtain k where k: "walen g = 2 ^ k" by (auto simp: ring_inv_def)
  from inv have len: "int (length (warr g)) = walen g" and t0: "0 < tenmin g" and t1: "tenmin g \<le> walen g"
    by (simp_all add: ring_inv_def)
  define d where "d = nat (tenmin g) - 1 - j"
  from j t0 have dj: "int d = tenmin g - 1 - int j" unfolding d_def by linarith
  from j t1 len have dl: "d < length (warr g)" unfolding d_def by linarith
  have "window_idx (walen g)
          ((((waidx g + 1) AND (walen g - 1)) + (walen g - tenmin g)) AND (walen g - 1)) (int j)
        = (((waidx g + 1) mod walen g + (walen g - tenmin g)) mod walen g + int j) mod walen g"
    by (simp add: window_idx_def k and_pow2_minus1)
  also have "\<dots> = (waidx g + 1 + (walen g - tenmin g) + int j) mod walen g"
    by (simp add: mod_simps)
  also have "\<dots> = (waidx g - int d + walen g) mod walen g"
    by (simp add: dj algebra_simps)
  also have "\<dots> = (waidx g - int d) mod walen g" by simp
  finally have "(warr g)[nat (waidx g) := wp]
            ! nat (window_idx (walen g)
                     ((((waidx g + 1) AND (walen g - 1)) + (walen g - tenmin g)) AND (walen g - 1))
                     (int j))
         = (warr g)[nat (waidx g) := wp] ! nat ((waidx g - int d) mod walen g)"
    by simp
  also have "\<dots> = (if d < length (wp # hist) then (wp # hist) ! d else wind_zero)"
    using inv dl by (rule ring_slot)
  also have "\<dots> = recent_window (nat (tenmin g)) (wp # hist) ! j"
    using j by (simp only: recent_window_nth d_def if_True)
  finally show ?thesis .
qed

lemma ring_inv_step:
  assumes inv: "ring_inv g hist"
  shows "ring_inv (g\<lparr>warr := (warr g)[nat (waidx g) := wp],
                     waidx := (waidx g + 1) AND (walen g - 1)\<rparr>) (wp # hist)"
proof -
  from inv obtain k where k: "walen g = 2 ^ k" by (auto simp: ring_inv_def)
  from inv have len: "int (length (warr g)) = walen g" and t0: "0 < tenmin g" and t1: "tenmin g \<le> walen g"
    by (simp_all add: ring_inv_def)
  have pos: "0 < walen g" by (simp add: k)
  have idx: "(waidx g + 1) AND (walen g - 1) = (waidx g + 1) mod walen g"
    by (simp add: k and_pow2_minus1)
  have slot: "(warr g)[nat (waidx g) := wp] ! nat (((waidx g + 1) mod walen g - 1 - int d) mod walen g)
           = (if d < length (wp # hist) then (wp # hist) ! d else wind_zero)"
    if "d < length (warr g)" for d
    using ring_slot[OF inv that, of wp] by (simp only: mod_pred_shift)
  let ?g' = "g\<lparr>warr := (warr g)[nat (waidx g) := wp], waidx := (waidx g + 1) AND (walen g - 1)\<rparr>"
  have sel: "walen ?g' = walen g" "tenmin ?g' = tenmin g"
    "warr ?g' = (warr g)[nat (waidx g) := wp]" "waidx ?g' = (waidx g + 1) mod walen g"
    by (simp_all add: idx)
  have c1: "\<exists>k. walen ?g' = 2 ^ k" unfolding sel using k by blast
  have c2: "int (length (warr ?g')) = walen ?g'" unfolding sel using len by simp
  have c3: "0 \<le> waidx ?g'" unfolding sel using pos by simp
  have c4: "waidx ?g' < walen ?g'" unfolding sel using pos by simp
  have c5: "0 < tenmin ?g'" unfolding sel using t0 .
  have c6: "tenmin ?g' \<le> walen ?g'" unfolding sel using t1 .
  have c7: "\<forall>d. d < length (warr ?g') \<longrightarrow>
          warr ?g' ! nat ((waidx ?g' - 1 - int d) mod walen ?g')
            = (if d < length (wp # hist) then (wp # hist) ! d else wind_zero)"
    unfolding sel using slot by simp
  from c1 c2 c3 c4 c5 c6 c7 show ?thesis unfolding ring_inv_def by blast
qed

text \<open>
  One call on a tracker that satisfies the invariant: unless every observation
  of the window is calm, the call returns the peak of the last \<^verbatim>\<open>tenmin\<close>
  observations.
\<close>

lemma gust_record_spec:
  assumes inv: "ring_inv g hist"
  shows "gust_record g wp =
     (if \<forall>w \<in> set (recent_window (nat (tenmin g)) (wp # hist)). speed w \<le> 0
      then Inl FoundUnassigned
      else Inr (g\<lparr>warr := (warr g)[nat (waidx g) := wp],
                   waidx := (waidx g + 1) AND (walen g - 1)\<rparr>,
                window_peak (recent_window (nat (tenmin g)) (wp # hist))))"
proof -
  define arr where "arr = (warr g)[nat (waidx g) := wp]"
  define f where "f = (((waidx g + 1) AND (walen g - 1)) + (walen g - tenmin g)) AND (walen g - 1)"
  define ws where "ws = recent_window (nat (tenmin g)) (wp # hist)"
  define g' where "g' = g\<lparr>warr := arr, waidx := (waidx g + 1) AND (walen g - 1)\<rparr>"
  have rec: "gust_record g wp =
      (case gust_scan arr (walen g) f (tenmin g) 0 0 None of
         None \<Rightarrow> Inl FoundUnassigned | Some found \<Rightarrow> Inr (g', Some (arr ! nat found)))"
    unfolding gust_record_def Let_def arr_def f_def g'_def by (rule refl)
  have lws: "length ws = nat (tenmin g)" by (simp add: ws_def recent_window_length)
  have slot: "arr ! nat (window_idx (walen g) f j) = ws ! nat j" if "0 \<le> j" "j < tenmin g" for j
  proof -
    from that have "nat j < nat (tenmin g)" by simp
    from ring_window_slot[OF inv this, of wp] that(1) show ?thesis
      by (simp add: arr_def f_def ws_def)
  qed
  from gust_scan_result[of arr "walen g" f "tenmin g" 0 0 None]
  show ?thesis
  proof (elim disjE conjE exE)
    assume n: "gust_scan arr (walen g) f (tenmin g) 0 0 None = None"
      and c: "\<forall>k. 0 \<le> k \<and> k < tenmin g \<longrightarrow> speed (arr ! nat (window_idx (walen g) f k)) \<le> 0"
    have "\<forall>w \<in> set ws. speed w \<le> 0"
    proof
      fix w assume "w \<in> set ws"
      then obtain i where i: "i < length ws" "w = ws ! i" by (auto simp: in_set_conv_nth)
      with lws have b: "0 \<le> int i \<and> int i < tenmin g" by linarith
      with c have "speed (arr ! nat (window_idx (walen g) f (int i))) \<le> 0" by blast
      with slot[of "int i"] b i show "speed w \<le> 0" by simp
    qed
    with rec n show ?thesis by (simp add: ws_def)
  next
    fix j
    assume j: "0 \<le> j" "j < tenmin g"
      and r: "gust_scan arr (walen g) f (tenmin g) 0 0 None = Some (window_idx (walen g) f j)"
      and p: "0 < speed (arr ! nat (window_idx (walen g) f j))"
      and m: "\<forall>k. 0 \<le> k \<and> k < tenmin g \<longrightarrow>
                speed (arr ! nat (window_idx (walen g) f k)) \<le> speed (arr ! nat (window_idx (walen g) f j))"
      and e: "\<forall>k. 0 \<le> k \<and> k < j \<longrightarrow>
                speed (arr ! nat (window_idx (walen g) f k)) < speed (arr ! nat (window_idx (walen g) f j))"
    from j lws have jl: "nat j < length ws" by simp
    have sj: "arr ! nat (window_idx (walen g) f j) = ws ! nat j" using j by (rule slot)
    have pos: "0 < speed (ws ! nat j)" using p sj by simp
    have notcalm: "\<not> (\<forall>w \<in> set ws. speed w \<le> 0)"
      using pos jl by (metis nth_mem not_le)
    have top: "\<forall>v \<in> set ws. speed v \<le> speed (ws ! nat j)"
    proof
      fix v assume "v \<in> set ws"
      then obtain i where i: "i < length ws" "v = ws ! i" by (auto simp: in_set_conv_nth)
      with lws have b: "0 \<le> int i \<and> int i < tenmin g" by linarith
      with m have "speed (arr ! nat (window_idx (walen g) f (int i)))
                     \<le> speed (arr ! nat (window_idx (walen g) f j))" by blast
      with slot[of "int i"] b sj i show "speed v \<le> speed (ws ! nat j)" by simp
    qed
    have first: "\<forall>i < nat j. \<not> (\<forall>v \<in> set ws. speed v \<le> speed (ws ! i))"
    proof (intro allI impI)
      fix i assume i: "i < nat j"
      with j have b: "0 \<le> int i \<and> int i < j" "int i < tenmin g" by linarith+
      with e have "speed (arr ! nat (window_idx (walen g) f (int i)))
                     < speed (arr ! nat (window_idx (walen g) f j))" by blast
      with slot[of "int i"] b sj have "speed (ws ! i) < speed (ws ! nat j)" by simp
      then show "\<not> (\<forall>v \<in> set ws. speed v \<le> speed (ws ! i))"
        using jl by (metis nth_mem not_le)
    qed
    have "window_peak ws = Some (ws ! nat j)"
      unfolding window_peak_def find_Some_iff using jl top first by blast
    with rec r sj notcalm show ?thesis by (simp add: ws_def g'_def arr_def)
  qed
qed

lemma window_peak_Some:
  assumes "ws \<noteq> []"
  shows "\<exists>x. window_peak ws = Some x"
proof -
  from assms have "speed ` set ws \<noteq> {}" "finite (speed ` set ws)" by simp_all
  then have "Max (speed ` set ws) \<in> speed ` set ws" by (rule Max_in[rotated])
  then obtain m where m: "m \<in> set ws" "speed m = Max (speed ` set ws)" by auto
  have "\<forall>v \<in> set ws. speed v \<le> speed m"
    using m(2) by simp
  with m(1) have "find (\<lambda>w. \<forall>v \<in> set ws. speed v \<le> speed w) ws \<noteq> None"
    unfolding find_None_iff by blast
  then show ?thesis by (simp add: window_peak_def)
qed

lemma ring_inv_walen: "ring_inv g hist \<Longrightarrow> walen g \<noteq> 0"
  by (auto simp: ring_inv_def)

lemma take_Suc_rev_Cons:
  "rev (take (Suc (Suc n)) (wp # rest)) @ hist = rev (take (Suc n) rest) @ wp # hist"
  by simp

lemma gust_feed_ring:
  assumes "ring_inv g hist"
  shows "if \<exists>n<length obs. \<forall>w \<in> set (recent_window (nat (tenmin g)) (rev (take (Suc n) obs) @ hist)).
               speed w \<le> 0
         then gust_feed interval g obs = Inl FoundUnassigned
         else \<exists>g'. gust_feed interval g obs =
                Inr (g', map (\<lambda>n. the (window_peak (recent_window (nat (tenmin g))
                                          (rev (take (Suc n) obs) @ hist))))
                          [0..<length obs])"
  using assms
proof (induction obs arbitrary: g hist)
  case Nil
  show ?case by simp
next
  case (Cons wp rest)
  let ?W = "\<lambda>n. recent_window (nat (tenmin g)) (rev (take (Suc n) (wp # rest)) @ hist)"
  let ?calm = "\<lambda>ws. \<forall>w \<in> set ws. speed w \<le> (0 :: int)"
  have W0: "?W 0 = recent_window (nat (tenmin g)) (wp # hist)" by simp
  have call: "wxcalcwindgust interval True g wp = gust_record g wp"
    using ring_inv_walen[OF Cons.prems] by (simp add: wxcalcwindgust_def)
  note spec = gust_record_spec[OF Cons.prems, of wp, folded ring_push_def]
  show ?case
  proof (cases "?calm (?W 0)")
    case True
    then have "\<exists>n<length (wp # rest). ?calm (?W n)" by blast
    moreover from True have "gust_feed interval g (wp # rest) = Inl FoundUnassigned"
      unfolding W0 by (simp add: call spec)
    ultimately show ?thesis by (simp only: if_True)
  next
    case False
    then have ne: "?W 0 \<noteq> []" by auto
    from window_peak_Some[OF ne] obtain x where x: "window_peak (?W 0) = Some x" by blast
    from False have rec: "gust_record g wp = Inr (ring_push g wp, Some x)"
      unfolding W0 using x[unfolded W0] by (simp add: spec)
    have inv': "ring_inv (ring_push g wp) (wp # hist)"
      unfolding ring_push_def using Cons.prems by (rule ring_inv_step)
    have tm': "tenmin (ring_push g wp) = tenmin g" by (simp add: ring_push_def)
    have shift: "recent_window (nat (tenmin g)) (rev (take (Suc n) rest) @ wp # hist) = ?W (Suc n)" for n
      by simp
    note IH = Cons.IH[OF inv', unfolded tm' shift]
    have ex: "(\<exists>n<length (wp # rest). ?calm (?W n)) \<longleftrightarrow> (\<exists>n<length rest. ?calm (?W (Suc n)))"
    proof
      assume "\<exists>n<length (wp # rest). ?calm (?W n)"
      then obtain n where n: "n < length (wp # rest)" "?calm (?W n)" by blast
      with False obtain n' where "n = Suc n'" by (cases n) auto
      with n show "\<exists>n<length rest. ?calm (?W (Suc n))" by auto
    next
      assume "\<exists>n<length rest. ?calm (?W (Suc n))"
      then obtain n where "n < length rest" "?calm (?W (Suc n))" by blast
      then have "Suc n < length (wp # rest) \<and> ?calm (?W (Suc n))" by simp
      then show "\<exists>n<length (wp # rest). ?calm (?W n)" by blast
    qed
    have feed: "gust_feed interval g (wp # rest) =
        (case gust_feed interval (ring_push g wp) rest of
           Inl e \<Rightarrow> Inl e | Inr (g'', rs) \<Rightarrow> Inr (g'', x # rs))"
      by (simp add: call rec split: sum.split)
    show ?thesis
    proof (cases "\<exists>n<length rest. ?calm (?W (Suc n))")
      case True
      with IH have "gust_feed interval (ring_push g wp) rest = Inl FoundUnassigned"
        by (simp only: if_True)
      with feed have "gust_feed interval g (wp # rest) = Inl FoundUnassigned" by simp
      with True ex show ?thesis by (simp only: if_True)
    next
      case False
      with IH obtain g'' where "gust_feed interval (ring_push g wp) rest =
          Inr (g'', map (\<lambda>n. the (window_peak (?W (Suc n)))) [0..<length rest])"
        by (simp only: if_False) blast
      with feed have "gust_feed interval g (wp # rest) =
          Inr (g'', x # map (\<lambda>n. the (window_peak (?W (Suc n)))) [0..<length rest])"
        by simp
      also have "x # map (\<lambda>n. the (window_peak (?W (Suc n)))) [0..<length rest]
            = map (\<lambda>n. the (window_peak (?W n))) [0..<length (wp # rest)]"
        using x by (simp add: map_upt_Suc del: upt_Suc take_Suc_Cons)
      finally have "\<exists>g'. gust_feed interval g (wp # rest) =
          Inr (g', map (\<lambda>n. the (window_peak (?W n))) [0..<length (wp # rest)])"
        by blast
      with False ex show ?thesis by (simp only: if_False)
    qed
  qed
qed

lemma ring_inv_init:
  assumes "0 < tm" "tm \<le> 2 ^ k"
  shows "ring_inv \<lparr>warr = replicate (nat (2 ^ k)) wind_zero, walen = 2 ^ k, waidx = 0, tenmin = tm\<rparr> []"
proof -
  have "replicate (nat (2 ^ k)) wind_zero ! nat ((0 - 1 - int d) mod 2 ^ k) = wind_zero" for d
  proof -
    have "(0 - 1 - int d) mod 2 ^ k < (2 :: int) ^ k" by simp
    moreover have "0 \<le> (0 - 1 - int d) mod (2 :: int) ^ k" by simp
    ultimately have "nat ((0 - 1 - int d) mod 2 ^ k) < nat (2 ^ k)" by linarith
    then show ?thesis by (rule nth_replicate)
  qed
  then show ?thesis using assms by (auto simp: ring_inv_def)
qed

text \<open>
  The tracker against the specification, for every positive sampling interval
  and every run of observations from the start of the process: when the window
  of some cycle holds no speed above 0 the run ends in the unassigned
  \<^verbatim>\<open>found\<close>; otherwise the gust reported in each cycle is the peak of the
  window of that cycle, the earliest of the greatest speeds among the last
  \<open>600 div interval + 1\<close> observations.
\<close>

theorem gust_feed_window_peak:
  assumes "0 < interval"
  shows "if \<exists>n<length obs. \<forall>w \<in> set (recent_window (nat (600 div interval + 1)) (rev (take (Suc n) obs))).
               speed w \<le> 0
         then gust_feed interval gust_init obs = Inl FoundUnassigned
         else \<exists>g'. gust_feed interval gust_init obs =
                Inr (g', map (\<lambda>n. the (window_peak (recent_window (nat (600 div interval + 1))
                                          (rev (take (Suc n) obs)))))
                          [0..<length obs])"
proof (cases obs)
  case Nil
  then show ?thesis by simp
next
  case (Cons wp rest)
  from gust_sizing_pos[OF assms] obtain k where
    k: "gust_sizing interval = Inr (600 div interval + 1, 2 ^ k)"
       "600 div interval + 1 < 2 ^ k" by blast
  define g0 where "g0 = \<lparr>warr = replicate (nat (2 ^ k)) wind_zero, walen = 2 ^ k, waidx = 0,
                          tenmin = 600 div interval + 1\<rparr>"
  have "0 \<le> 600 div interval" using assms by (simp add: pos_imp_zdiv_nonneg_iff)
  then have "0 < 600 div interval + 1" by simp
  moreover from k(2) have "600 div interval + 1 \<le> 2 ^ k" by simp
  ultimately have inv: "ring_inv g0 []" unfolding g0_def by (rule ring_inv_init)
  have tm: "tenmin g0 = 600 div interval + 1" by (simp add: g0_def)
  have "wxcalcwindgust interval True gust_init wp = gust_record g0 wp"
    by (simp add: wxcalcwindgust_def gust_init_def k(1) g0_def)
  moreover have "wxcalcwindgust interval True g0 wp = gust_record g0 wp"
    using ring_inv_walen[OF inv] by (simp add: wxcalcwindgust_def)
  ultimately have eq: "gust_feed interval gust_init obs = gust_feed interval g0 obs"
    unfolding Cons by simp
  show ?thesis
    unfolding eq by (rule gust_feed_ring[OF inv, of obs interval, unfolded tm append_Nil2])
qed

text \<open>
  The tracker after a run of cycles from the start of the process: its buffer
  holds the observations of the run, and its window has
  \<open>600 div interval + 1\<close> slots.  A window that ends with a calm reading
  holds a speed above 0 exactly when one of the readings before it does.
\<close>

lemma gust_record_ring:
  assumes inv: "ring_inv g hist" and r: "gust_record g wp = Inr (g', r)"
  shows "g' = g\<lparr>warr := (warr g)[nat (waidx g) := wp], waidx := (waidx g + 1) AND (walen g - 1)\<rparr>"
  using r unfolding gust_record_spec[OF inv] by (simp split: if_splits)

lemma gust_feed_inv:
  assumes "ring_inv g hist" "gust_feed interval g obs = Inr (g', rs)"
  shows "ring_inv g' (rev obs @ hist) \<and> tenmin g' = tenmin g"
  using assms
proof (induction obs arbitrary: g hist rs)
  case Nil
  then show ?case by simp
next
  case (Cons wp rest)
  have call: "wxcalcwindgust interval True g wp = gust_record g wp"
    using ring_inv_walen[OF Cons.prems(1)] by (simp add: wxcalcwindgust_def)
  from Cons.prems(2) obtain g1 r where r: "gust_record g wp = Inr (g1, r)"
    by (cases "gust_record g wp") (auto simp: call)
  from Cons.prems(2) r obtain rs' where f: "gust_feed interval g1 rest = Inr (g', rs')"
    by (cases "gust_feed interval g1 rest") (auto simp: call)
  have g1: "g1 = g\<lparr>warr := (warr g)[nat (waidx g) := wp], waidx := (waidx g + 1) AND (walen g - 1)\<rparr>"
    using Cons.prems(1) r by (rule gust_record_ring)
  have inv1: "ring_inv g1 (wp # hist)"
    unfolding g1 using Cons.prems(1) by (rule ring_inv_step)
  have tm: "tenmin g1 = tenmin g" by (simp add: g1)
  from Cons.IH[OF inv1 f] tm show ?case by simp
qed

lemma gust_feed_reached:
  assumes pos: "0 < interval" and f: "gust_feed interval gust_init obs = Inr (g, rs)" and ne: "obs \<noteq> []"
  shows "ring_inv g (rev obs) \<and> tenmin g = 600 div interval + 1"
proof -
  from ne obtain wp rest where obs: "obs = wp # rest" by (cases obs) auto
  from gust_sizing_pos[OF pos] obtain k where
    k: "gust_sizing interval = Inr (600 div interval + 1, 2 ^ k)"
       "600 div interval + 1 < 2 ^ k" by blast
  define g0 where "g0 = \<lparr>warr = replicate (nat (2 ^ k)) wind_zero, walen = 2 ^ k, waidx = 0,
                          tenmin = 600 div interval + 1\<rparr>"
  have "0 \<le> 600 div interval" using pos by (simp add: pos_imp_zdiv_nonneg_iff)
  then have "0 < 600 div interval + 1" by simp
  moreover from k(2) have "600 div interval + 1 \<le> 2 ^ k" by simp
  ultimately have inv: "ring_inv g0 []" unfolding g0_def by (rule ring_inv_init)
  have tm: "tenmin g0 = 600 div interval + 1" by (simp add: g0_def)
  have "wxcalcwindgust interval True gust_init wp = gust_record g0 wp"
    by (simp add: wxcalcwindgust_def gust_init_def k(1) g0_def)
  moreover have "wxcalcwindgust interval True g0 wp = gust_record g0 wp"
    using ring_inv_walen[OF inv] by (simp add: wxcalcwindgust_def)
  ultimately have eq: "gust_feed interval gust_init obs = gust_feed interval g0 obs"
    unfolding obs by simp
  from gust_feed_inv[OF inv f[unfolded eq]] tm show ?thesis by simp
qed

lemma calm_window_iff:
  "(\<forall>w \<in> set (recent_window (Suc n) (wind_zero # hist)). speed w \<le> 0)
     \<longleftrightarrow> \<not> (\<exists>v \<in> set (take n hist). 0 < speed v)"
proof -
  have "set (recent_window (Suc n) (wind_zero # hist))
          = insert wind_zero (set (take n hist) \<union> set (take (n - length hist) (replicate (Suc n) wind_zero)))"
    by (auto simp: recent_window_def)
  moreover have "\<forall>w \<in> set (take (n - length hist) (replicate (Suc n) wind_zero)). speed w \<le> 0"
  proof
    fix w assume "w \<in> set (take (n - length hist) (replicate (Suc n) wind_zero))"
    then have "w \<in> set (replicate (Suc n) wind_zero)" by (rule in_set_takeD)
    then show "speed w \<le> 0" by (auto simp: wind_zero_def)
  qed
  ultimately show ?thesis by (auto simp: wind_zero_def not_less)
qed

subsection \<open>Decoding a record of sentinels\<close>

lemma all_ones_fields:
  assumes "\<forall>i. 7 \<le> i \<and> i < 56 \<longrightarrow> ld ! i = (0xFF :: byte)"
  shows "ld_bar ld = 0xffff" "ld_tempIn ld = -1" "ld_humIn ld = 0xff" "ld_tempOut ld = -1"
        "ld_windSpeed ld = 0xff" "ld_windSpeed10 ld = 0xff" "ld_windDir ld = 0xffff"
        "ld_humOut ld = 0xff" "ld_rainRate ld = 0xffff" "ld_solarRad ld = 0xffff"
        "ld_rainDay ld = 0xffff" "ld_rainMonth ld = 0xffff" "ld_rainYear ld = 0xffff"
  using assms
  by (simp_all add: ld_bar_def ld_tempIn_def ld_humIn_def ld_tempOut_def ld_windSpeed_def
        ld_windSpeed10_def ld_windDir_def ld_humOut_def ld_rainRate_def ld_solarRad_def
        ld_rainDay_def ld_rainMonth_def ld_rainYear_def u8_at_def u16_at_def s16_at_def)

lemma cvt_head_all_ones:
  assumes "\<forall>i. 7 \<le> i \<and> i < 56 \<longrightarrow> ld ! i = (0xFF :: byte)"
  shows "cvt_head ld (wxdat_zero t) = (wxdat_zero t)\<lparr>barometer := wxd_zero\<lparr>units := ''in''\<rparr>\<rparr>"
  by (simp add: cvt_head_def cvt_float_def all_ones_fields[OF assms] EIGHT_ONES_def SIXTEEN_ONES_def
        wxdat_zero_def wind_zero_def)

lemma cvt_wind_temp_all_ones:
  assumes "\<forall>i. 7 \<le> i \<and> i < 56 \<longrightarrow> ld ! i = (0xFF :: byte)"
  shows "cvt_wind_temp ld w =
     w\<lparr>windspeed := (windspeed w)\<lparr>units := ''mph''\<rparr>,
       winddir := (winddir w)\<lparr>units := ''deg''\<rparr>,
       avgwindspeed := (avgwindspeed w)\<lparr>units := ''mph''\<rparr>,
       avgwindspeedinterval := (avgwindspeedinterval w)\<lparr>units := ''min''\<rparr>,
       indoortemp := (set_float (indoortemp w) (- 1 / 10) (WXD_VALID OR WXD_ENGLISH OR 1))\<lparr>units := ''deg F''\<rparr>,
       outdoortemp := (set_float (outdoortemp w) (- 1 / 10) (WXD_VALID OR WXD_ENGLISH OR 1))\<lparr>units := ''deg F''\<rparr>\<rparr>"
  by (simp add: cvt_wind_temp_def cvt_float_def all_ones_fields[OF assms] EIGHT_ONES_def
        SIXTEEN_ONES_def set_float_def)

lemma cvt_hum_rain_all_ones:
  assumes "\<forall>i. 7 \<le> i \<and> i < 56 \<longrightarrow> ld ! i = (0xFF :: byte)"
  shows "cvt_hum_rain ld w =
     w\<lparr>indoorhum := (indoorhum w)\<lparr>units := ''%''\<rparr>,
       outdoorhum := (outdoorhum w)\<lparr>units := ''%''\<rparr>,
       rainrate := (rainrate w)\<lparr>units := ''in/hr''\<rparr>,
       solar := (solar w)\<lparr>units := ''w/m2''\<rparr>,
       rainday := (rainday w)\<lparr>units := ''in''\<rparr>,
       rainmonth := (rainmonth w)\<lparr>units := ''in''\<rparr>,
       rainyear := (rainyear w)\<lparr>units := ''in''\<rparr>\<rparr>"
  by (simp add: cvt_hum_rain_def cvt_float_def cvt_int_def all_ones_fields[OF assms] EIGHT_ONES_def
        SIXTEEN_ONES_def)

text \<open>
  The decoder on a record of sentinels calls the gust tracker with the calm
  reading of the zeroed sample, and has a result exactly when the tracker has
  one.
\<close>

lemma cvt_all_ones_sample:
  assumes ones: "\<forall>i. 7 \<le> i \<and> i < 56 \<longrightarrow> ld ! i = (0xFF :: byte)"
      and gust: "wxcalcwindgust interval malloc_ok g wind_zero = Inr (g', wg)"
  shows "\<exists>w'. cvtvploop2fwx interval malloc_ok ld g (wxdat_zero t) = Inr (g', w')
      \<and> \<not> WXD_ISVALID (barometer w') \<and> \<not> WXD_ISVALID (windspeed w')
      \<and> \<not> WXD_ISVALID (winddir w') \<and> \<not> WXD_ISVALID (avgwindspeed w')
      \<and> \<not> WXD_ISVALID (indoorhum w') \<and> \<not> WXD_ISVALID (outdoorhum w')
      \<and> \<not> WXD_ISVALID (outdoordewpoint w') \<and> \<not> WXD_ISVALID (rainrate w')
      \<and> \<not> WXD_ISVALID (rainday w') \<and> \<not> WXD_ISVALID (rainmonth w')
      \<and> \<not> WXD_ISVALID (rainyear w') \<and> \<not> WXD_ISVALID (solar w')
      \<and> WXD_ISVALID (indoortemp w') \<and> floatd (indoortemp w') = - 1 / 10
      \<and> WXD_ISVALID (outdoortemp w') \<and> floatd (outdoortemp w') = - 1 / 10"
proof -
  have wc: "windcur (cvt_head ld (wxdat_zero t)) = wind_zero"
    by (subst cvt_head_all_ones[OF ones]) (simp add: wxdat_zero_def)
  have eq: "cvtvploop2fwx interval malloc_ok ld g (wxdat_zero t) =
      Inr (g', wxcalcdewpoint (cvt_hum_rain ld (cvt_wind_temp ld
             (case wg of None \<Rightarrow> cvt_head ld (wxdat_zero t)
              | Some x \<Rightarrow> (cvt_head ld (wxdat_zero t))\<lparr>windgust := x\<rparr>))))"
    by (simp add: cvtvploop2fwx_def Let_def wc gust)
  show ?thesis
    unfolding eq cvt_head_all_ones[OF ones]
      cvt_wind_temp_all_ones[OF ones] cvt_hum_rain_all_ones[OF ones]
    by (intro exI conjI, rule refl)
       (simp_all add: wxcalcdewpoint_def wxdat_zero_def wxd_zero_def
          WXD_ISVALID_def WXD_VALID_def WXD_ENGLISH_def set_float_def split: option.split)
qed

lemma cvt_all_ones_undefined:
  assumes ones: "\<forall>i. 7 \<le> i \<and> i < 56 \<longrightarrow> ld ! i = (0xFF :: byte)"
      and gust: "wxcalcwindgust interval malloc_ok g wind_zero = Inl e"
  shows "cvtvploop2fwx interval malloc_ok ld g (wxdat_zero t) = Inl e"
proof -
  have wc: "windcur (cvt_head ld (wxdat_zero t)) = wind_zero"
    by (subst cvt_head_all_ones[OF ones]) (simp add: wxdat_zero_def)
  show ?thesis by (simp add: cvtvploop2fwx_def Let_def wc gust)
qed

text \<open>
  Claim C1, as the code has it.  A record whose members read by the decoder are
  all ones, decoded into the zeroed sample of \<^verbatim>\<open>main\<close> at a positive sampling
  interval, after any run \<open>obs\<close> of cycles from the start of the process
  (in which the buffer of the tracker was allocated).
  The record leaves the wind of the sample at speed 0, and that is the reading
  the gust tracker gets.  When one of the last \<open>600 div interval\<close>
  observations has a speed above 0 (or when this is the first cycle and
  \<^verbatim>\<open>malloc\<close> fails, so that the tracker returns null), the decoder returns
  and the barometer, the wind speed and direction, the average wind speed, both
  humidities, the dewpoint, the rain rate, the three rain totals and the solar
  radiation are invalid; the two temperatures, signed members that read as
  \<open>-1\<close>, pass the band \<^verbatim>\<open>stmp != 0x1000 && stmp > -1500 && stmp < 1500\<close>
  and are valid with the value \<open>-0.1\<close>.  In every other case, the first
  cycle among them, the window of the tracker is calm, \<^verbatim>\<open>found\<close> is read
  unassigned, and the decoder has no defined result.
\<close>

theorem cvt_all_ones:
  assumes len: "length ld = VPLOOPSIZE"
      and ones: "\<forall>i. 7 \<le> i \<and> i < 56 \<longrightarrow> ld ! i = (0xFF :: byte)"
      and pos: "0 < interval"
      and feed: "gust_feed interval gust_init obs = Inr (g, rs)"
  shows "if (\<exists>v \<in> set (take (nat (600 div interval)) (rev obs)). 0 < speed v)
            \<or> (obs = [] \<and> \<not> malloc_ok)
         then \<exists>g' w'. cvtvploop2fwx interval malloc_ok ld g (wxdat_zero t) = Inr (g', w')
            \<and> \<not> WXD_ISVALID (barometer w') \<and> \<not> WXD_ISVALID (windspeed w')
            \<and> \<not> WXD_ISVALID (winddir w') \<and> \<not> WXD_ISVALID (avgwindspeed w')
            \<and> \<not> WXD_ISVALID (indoorhum w') \<and> \<not> WXD_ISVALID (outdoorhum w')
            \<and> \<not> WXD_ISVALID (outdoordewpoint w') \<and> \<not> WXD_ISVALID (rainrate w')
            \<and> \<not> WXD_ISVALID (rainday w') \<and> \<not> WXD_ISVALID (rainmonth w')
            \<and> \<not> WXD_ISVALID (rainyear w') \<and> \<not> WXD_ISVALID (solar w')
            \<and> WXD_ISVALID (indoortemp w') \<and> floatd (indoortemp w') = - 1 / 10
            \<and> WXD_ISVALID (outdoortemp w') \<and> floatd (outdoortemp w') = - 1 / 10
         else cvtvploop2fwx interval malloc_ok ld g (wxdat_zero t) = Inl FoundUnassigned"
proof (cases "obs = []")
  case True
  with feed have g: "g = gust_init" by simp
  show ?thesis
  proof (cases malloc_ok)
    case mt: True
    from gust_calm_first_call_general[OF pos, of wind_zero]
    have "wxcalcwindgust interval True gust_init wind_zero = Inl FoundUnassigned"
      by (simp add: wind_zero_def)
    from cvt_all_ones_undefined[OF ones this] True mt g show ?thesis by simp
  next
    case mf: False
    from gust_sizing_pos[OF pos] obtain k where
      k: "gust_sizing interval = Inr (600 div interval + 1, 2 ^ k)" by blast
    have "wxcalcwindgust interval False gust_init wind_zero
            = Inr (gust_init\<lparr>warr := [], walen := 0, tenmin := 600 div interval + 1\<rparr>, None)"
      by (simp add: wxcalcwindgust_def gust_init_def k)
    from cvt_all_ones_sample[OF ones this] True mf g show ?thesis by (simp only: if_True simp_thms) blast
  qed
next
  case False
  from gust_feed_reached[OF pos feed False]
  have inv: "ring_inv g (rev obs)" and tm: "tenmin g = 600 div interval + 1" by simp_all
  have "0 \<le> 600 div interval" using pos by (simp add: pos_imp_zdiv_nonneg_iff)
  then have n: "nat (tenmin g) = Suc (nat (600 div interval))" unfolding tm by simp
  have call: "wxcalcwindgust interval malloc_ok g wind_zero = gust_record g wind_zero"
    using ring_inv_walen[OF inv] by (simp add: wxcalcwindgust_def)
  note spec = gust_record_spec[OF inv, of wind_zero, unfolded n calm_window_iff]
  show ?thesis
  proof (cases "\<exists>v \<in> set (take (nat (600 div interval)) (rev obs)). 0 < speed v")
    case True
    with spec obtain g' wg where "gust_record g wind_zero = Inr (g', wg)" by simp
    with call have "wxcalcwindgust interval malloc_ok g wind_zero = Inr (g', wg)" by simp
    from cvt_all_ones_sample[OF ones this] True show ?thesis by (simp only: if_True simp_thms) blast
  next
    case nf: False
    with spec have "gust_record g wind_zero = Inl FoundUnassigned" by simp
    with call have "wxcalcwindgust interval malloc_ok g wind_zero = Inl FoundUnassigned" by simp
    from cvt_all_ones_undefined[OF ones this] nf False show ?thesis by simp
  qed
qed

theorem cvt_all_ones_witness:
  "(\<exists>g' w'. cvtvploop2fwx 61 True (replicate 99 0xFF)
           \<lparr>warr = (replicate 16 wind_zero)[0 := \<lparr>speed = 5, direction = 90\<rparr>],
            walen = 16, waidx = 1, tenmin = 10\<rparr> (wxdat_zero 0) = Inr (g', w')
      \<and> WXD_ISVALID (indoortemp w') \<and> floatd (indoortemp w') = - 1 / 10
      \<and> WXD_ISVALID (outdoortemp w') \<and> floatd (outdoortemp w') = - 1 / 10
      \<and> \<not> WXD_ISVALID (barometer w') \<and> \<not> WXD_ISVALID (outdoorhum w')
      \<and> \<not> WXD_ISVALID (windspeed w') \<and> \<not> WXD_ISVALID (solar w'))
   \<and> cvtvploop2fwx 30 True (replicate 99 0xFF) gust_init (wxdat_zero 0) = Inl FoundUnassigned"
proof -
  let ?g = "\<lparr>warr = (replicate 16 wind_zero)[0 := \<lparr>speed = 5, direction = 90\<rparr>],
             walen = 16, waidx = 1, tenmin = 10\<rparr>"
  have l: "length (replicate 99 (0xFF :: byte)) = VPLOOPSIZE"
    by (simp add: VPLOOPSIZE_def)
  have o: "\<forall>i. 7 \<le> i \<and> i < 56 \<longrightarrow> replicate 99 (0xFF :: byte) ! i = 0xFF"
    by simp
  have p61: "(0 :: int) < 61" and p30: "(0 :: int) < 30" by simp_all
  have f1: "gust_feed 61 gust_init [\<lparr>speed = 5, direction = 90\<rparr>]
              = Inr (?g, [\<lparr>speed = 5, direction = 90\<rparr>])"
    by (simp add: gust_eval gust_sizing_61)
  have f0: "gust_feed 30 gust_init [] = Inr (gust_init, [])" by simp
  have windy: "(\<exists>v \<in> set (take (nat (600 div 61)) (rev [\<lparr>speed = 5, direction = 90\<rparr>])). 0 < speed v)
                 \<or> ([\<lparr>speed = 5, direction = 90\<rparr>] = [] \<and> \<not> True)"
    by simp
  have calm: "\<not> ((\<exists>v \<in> set (take (nat (600 div 30)) (rev ([] :: wind list))). 0 < speed v)
                 \<or> (([] :: wind list) = [] \<and> \<not> True))"
    by simp
  from cvt_all_ones[OF l o p61 f1, of True 0]
  have a: "\<exists>g' w'. cvtvploop2fwx 61 True (replicate 99 0xFF) ?g (wxdat_zero 0) = Inr (g', w')
      \<and> WXD_ISVALID (indoortemp w') \<and> floatd (indoortemp w') = - 1 / 10
      \<and> WXD_ISVALID (outdoortemp w') \<and> floatd (outdoortemp w') = - 1 / 10
      \<and> \<not> WXD_ISVALID (barometer w') \<and> \<not> WXD_ISVALID (outdoorhum w')
      \<and> \<not> WXD_ISVALID (windspeed w') \<and> \<not> WXD_ISVALID (solar w')"
    unfolding if_P[OF windy] by blast
  from cvt_all_ones[OF l o p30 f0, of True 0]
  have b: "cvtvploop2fwx 30 True (replicate 99 0xFF) gust_init (wxdat_zero 0) = Inl FoundUnassigned"
    unfolding if_not_P[OF calm] .
  from a b show ?thesis by (rule conjI)
qed

text \<open>
  Claim C1, as stated, fails on the record of 99 bytes \<open>0xFF\<close>, decoded after
  a cycle that recorded a wind of 5 mph: both temperatures come out valid.
\<close>

theorem cvt_all_ones_counterexample:
  "case cvtvploop2fwx 61 True (replicate 99 0xFF)
           \<lparr>warr = (replicate 16 wind_zero)[0 := \<lparr>speed = 5, direction = 90\<rparr>],
            walen = 16, waidx = 1, tenmin = 10\<rparr> (wxdat_zero 0) of
     Inl e \<Rightarrow> False
   | Inr (g', w') \<Rightarrow>
       WXD_ISVALID (indoortemp w') \<and> floatd (indoortemp w') = - 1 / 10
     \<and> WXD_ISVALID (outdoortemp w') \<and> floatd (outdoortemp w') = - 1 / 10"
  by (simp add: cvtvploop2fwx_def cvt_head_def cvt_wind_temp_def cvt_hum_rain_def cvt_float_def cvt_int_def
        wxcalcdewpoint_def wxdat_zero_def wxd_zero_def
        ld_bar_def ld_tempIn_def ld_humIn_def ld_tempOut_def ld_windSpeed_def
        ld_windSpeed10_def ld_windDir_def ld_humOut_def ld_rainRate_def ld_solarRad_def
        ld_rainDay_def ld_rainMonth_def ld_rainYear_def u8_at_def u16_at_def s16_at_def
        EIGHT_ONES_def SIXTEEN_ONES_def
        wxcalcwindgust_def gust_record_def Let_def gust_scan.simps wind_zero_def window_idx_def
        WXD_ISVALID_def WXD_VALID_def WXD_ENGLISH_def WXD_METRIC_def set_float_def set_int_def)

lemmas ld_defs = ld_bar_def ld_tempIn_def ld_humIn_def ld_tempOut_def ld_windSpeed_def
        ld_windSpeed10_def ld_windDir_def ld_humOut_def ld_rainRate_def ld_solarRad_def
        ld_rainDay_def ld_rainMonth_def ld_rainYear_def u8_at_def u16_at_def s16_at_def
        EIGHT_ONES_def SIXTEEN_ONES_def

lemmas flag_defs = WXD_ISVALID_def WXD_ISENGLISH_def WXD_ISMETRIC_def
  WXD_VALID_def WXD_ENGLISH_def WXD_METRIC_def set_float_def set_int_def

subsection \<open>Dewpoint of a decoded record\<close>

lemma sonntag_Some:
  "0 < hum \<Longrightarrow> 243.12 + temp \<noteq> 0 \<Longrightarrow>
   sonntag hum temp =
     Some ((243.12 * ln (sonntag_ews hum temp) - 440.1) / (19.43 - ln (sonntag_ews hum temp)))"
  by (simp add: sonntag_def sonntag_ews_def not_le)

lemma wxcalcdewpoint_metric:
  assumes "WXD_ISVALID (outdoortemp w)" "WXD_ISVALID (outdoorhum w)"
      and "\<not> WXD_ISENGLISH (outdoorhum w)"
      and "sonntag (floatd (outdoorhum w)) (floatd (outdoortemp w)) = Some d"
  shows "wxcalcdewpoint w =
    w\<lparr>outdoordewpoint := (set_float (outdoordewpoint w) d (WXD_VALID OR WXD_METRIC OR 1))\<lparr>units := ''deg C''\<rparr>\<rparr>"
  using assms by (simp add: wxcalcdewpoint_def WXD_ISENGLISH_def Let_def)

lemma cvt_hum_rain_outdoor:
  "outdoortemp (cvt_hum_rain ld w) = outdoortemp w"
  "outdoordewpoint (cvt_hum_rain ld w) = outdoordewpoint w"
  "flags (outdoorhum (cvt_hum_rain ld w)) = WXD_VALID \<or>
     flags (outdoorhum (cvt_hum_rain ld w)) = flags (outdoorhum w)"
  by (simp_all add: cvt_hum_rain_def cvt_float_def set_float_def)

lemma cvt_wind_temp_outdoor:
  "outdoorhum (cvt_wind_temp ld w) = outdoorhum w"
  "outdoordewpoint (cvt_wind_temp ld w) = outdoordewpoint w"
  by (simp_all add: cvt_wind_temp_def)

lemma cvt_head_outdoor:
  "outdoorhum (cvt_head ld w) = outdoorhum w"
  "outdoordewpoint (cvt_head ld w) = outdoordewpoint w"
  by (simp_all add: cvt_head_def)

lemma wxcalcdewpoint_not_english:
  assumes "\<not> WXD_ISENGLISH (outdoorhum w)" "\<not> WXD_ISVALID (outdoordewpoint w)"
  shows "outdoorhum (wxcalcdewpoint w) = outdoorhum w"
    and "outdoortemp (wxcalcdewpoint w) = outdoortemp w"
    and "WXD_ISVALID (outdoordewpoint (wxcalcdewpoint w)) \<longrightarrow>
           units (outdoordewpoint (wxcalcdewpoint w)) = ''deg C''
         \<and> WXD_ISMETRIC (outdoordewpoint (wxcalcdewpoint w))
         \<and> \<not> WXD_ISENGLISH (outdoordewpoint (wxcalcdewpoint w))
         \<and> sonntag (floatd (outdoorhum w)) (floatd (outdoortemp w))
             = Some (floatd (outdoordewpoint (wxcalcdewpoint w)))"
  using assms
  by (auto simp: wxcalcdewpoint_def Let_def WXD_ISENGLISH_def WXD_ISVALID_def WXD_ISMETRIC_def
        WXD_VALID_def WXD_METRIC_def WXD_ENGLISH_def set_float_def split: option.splits)

text \<open>
  No decoded record takes the English branch of \<^verbatim>\<open>wxcalcdewpoint\<close>: whatever
  the record holds, the humidity of the decoded sample is not flagged English,
  and a dewpoint that is valid is metric, in \<^verbatim>\<open>"deg C"\<close>, and is Sonntag's
  formula applied to the stored temperature as it is.
\<close>

lemma dewpoint_never_converted:
  assumes "cvtvploop2fwx interval malloc_ok ld g (wxdat_zero t) = Inr (g', w')"
  shows "\<not> WXD_ISENGLISH (outdoorhum w')"
    and "WXD_ISVALID (outdoordewpoint w') \<longrightarrow>
           units (outdoordewpoint w') = ''deg C''
         \<and> WXD_ISMETRIC (outdoordewpoint w') \<and> \<not> WXD_ISENGLISH (outdoordewpoint w')
         \<and> sonntag (floatd (outdoorhum w')) (floatd (outdoortemp w'))
             = Some (floatd (outdoordewpoint w'))"
proof -
  from assms obtain w2 where
    w': "w' = wxcalcdewpoint (cvt_hum_rain ld (cvt_wind_temp ld w2))"
    and w2: "outdoorhum w2 = wxd_zero" "outdoordewpoint w2 = wxd_zero"
    by (auto simp: cvtvploop2fwx_def Let_def cvt_head_outdoor wxdat_zero_def
          split: sum.splits option.splits)
  let ?w = "cvt_hum_rain ld (cvt_wind_temp ld w2)"
  have h: "\<not> WXD_ISENGLISH (outdoorhum ?w)"
    using cvt_hum_rain_outdoor(3)[of ld "cvt_wind_temp ld w2"] w2
    by (auto simp: cvt_wind_temp_outdoor wxd_zero_def WXD_ISENGLISH_def WXD_VALID_def WXD_ENGLISH_def)
  have d: "\<not> WXD_ISVALID (outdoordewpoint ?w)"
    using w2 by (simp add: cvt_hum_rain_outdoor cvt_wind_temp_outdoor wxd_zero_def WXD_ISVALID_def)
  from wxcalcdewpoint_not_english[OF h d] show "\<not> WXD_ISENGLISH (outdoorhum w')"
    using h w' by simp
  from wxcalcdewpoint_not_english[OF h d] show "WXD_ISVALID (outdoordewpoint w') \<longrightarrow>
           units (outdoordewpoint w') = ''deg C''
         \<and> WXD_ISMETRIC (outdoordewpoint w') \<and> \<not> WXD_ISENGLISH (outdoordewpoint w')
         \<and> sonntag (floatd (outdoorhum w')) (floatd (outdoortemp w'))
             = Some (floatd (outdoordewpoint w'))"
    unfolding w' by simp
qed

text \<open>
  Claim C4 fails on every decoded record, here one with an outdoor temperature
  of 72.3 degrees F (raw 723), an outdoor humidity of 50 percent and a wind of
  5 mph, decoded in the first cycle.  \<^verbatim>\<open>wxcalcdewpoint\<close> tests the flags of
  \<^verbatim>\<open>outdoorhum\<close>, which the decoder sets to \<^verbatim>\<open>WXD_VALID|0\<close>, so the English
  branch is never taken: the Fahrenheit reading enters Sonntag's formula as if
  it were Celsius, and the result is stored unconverted as metric, in
  \<^verbatim>\<open>"deg C"\<close>.
\<close>

theorem dewpoint_of_loop_record:
  "case cvtvploop2fwx 30 True ((replicate 99 0)[12 := 0xD3, 13 := 0x02, 14 := 5, 33 := 50])
          gust_init (wxdat_zero 0) of
     Inl e \<Rightarrow> False
   | Inr (g', w') \<Rightarrow>
       WXD_ISVALID (outdoortemp w') \<and> WXD_ISENGLISH (outdoortemp w')
     \<and> floatd (outdoortemp w') = 723 / 10 \<and> units (outdoortemp w') = ''deg F''
     \<and> WXD_ISVALID (outdoorhum w') \<and> floatd (outdoorhum w') = 50
     \<and> WXD_ISVALID (outdoordewpoint w') \<and> WXD_ISMETRIC (outdoordewpoint w')
     \<and> \<not> WXD_ISENGLISH (outdoordewpoint w') \<and> units (outdoordewpoint w') = ''deg C''
     \<and> sonntag 50 (723 / 10) = Some (floatd (outdoordewpoint w'))"
proof -
  have s: "sonntag 50 (723 / 10) =
     Some ((243.12 * ln (sonntag_ews 50 (723 / 10)) - 440.1) / (19.43 - ln (sonntag_ews 50 (723 / 10))))"
    by (rule sonntag_Some) simp_all
  have g: "wxcalcwindgust 30 True gust_init \<lparr>speed = 5, direction = 0\<rparr>
      = Inr (\<lparr>warr = (replicate 32 wind_zero)[0 := \<lparr>speed = 5, direction = 0\<rparr>],
               walen = 32, waidx = 1, tenmin = 21\<rparr>, Some \<lparr>speed = 5, direction = 0\<rparr>)"
    by (simp add: gust_eval gust_sizing_30)
  show ?thesis
    by (simp add: cvtvploop2fwx_def cvt_head_def cvt_wind_temp_def cvt_hum_rain_def cvt_float_def cvt_int_def
        wxdat_zero_def wxd_zero_def ld_defs Let_def g wind_zero_def
        wxcalcdewpoint_def s flag_defs)
qed

subsection \<open>The log line of a sample with invalid fields\<close>

lemma digit_not_NUL: "n < 10 \<Longrightarrow> NUL \<noteq> ''0123456789'' ! n"
proof -
  assume "n < 10"
  then have "n \<in> {0, 1, 2, 3, 4, 5, 6, 7, 8, 9}" by auto
  then show ?thesis by (auto simp: NUL_def)
qed

lemma dec_digits_no_NUL: "NUL \<notin> set (dec_digits n)"
proof (induction n rule: dec_digits.induct)
  case (1 n)
  show ?case
  proof (cases "n < 10")
    case True
    then show ?thesis by (subst dec_digits.simps) (simp add: digit_not_NUL)
  next
    case False
    have "n mod 10 < 10" by simp
    then have "NUL \<noteq> ''0123456789'' ! (n mod 10)" by (rule digit_not_NUL)
    with False "1.IH" show ?thesis
      by (subst dec_digits.simps) simp
  qed
qed

lemma fmt_d_no_NUL: "NUL \<notin> set (fmt_d n)"
proof -
  have "NUL \<noteq> CHR ''-''" by (simp add: NUL_def)
  then show ?thesis by (simp add: fmt_d_def dec_digits_no_NUL)
qed

lemma c_str_cut: "NUL \<notin> set xs \<Longrightarrow> c_str (xs @ NUL # ys) = xs"
  by (induction xs) (auto simp: c_str_def)

lemma fmt_version: "fmt_d VERSION_MAJ = ''0''" "fmt_d VERSION_MIN = ''5''"
  by (simp_all add: fmt_d_def VERSION_MAJ_def VERSION_MIN_def dec_digits.simps)

lemma put_float_cut:
  "\<exists>ys. buf = pre @ NUL # ys \<Longrightarrow> \<exists>ys. put_float p x buf = pre @ NUL # ys"
  by (auto simp: put_float_def put_text_def put_empty_def)

lemma put_text_cut:
  "\<exists>ys. buf = pre @ NUL # ys \<Longrightarrow> \<exists>ys. put_text buf txt = pre @ NUL # ys"
  by (auto simp: put_text_def)

lemma put_empty_cut:
  "\<exists>ys. buf = pre @ NUL # ys \<Longrightarrow> \<exists>ys. put_empty buf = pre @ NUL # ys"
  by (auto simp: put_empty_def)

lemma append_cut:
  "\<exists>ys. buf = pre @ NUL # ys \<Longrightarrow> \<exists>ys. buf @ zs = pre @ NUL # ys"
  by auto

lemma wxlog_buf_prefix_barometer:
  assumes "\<not> WXD_ISVALID (barometer w)"
  shows "\<exists>ys. wxlog_buf w = (''0,5,'' @ fmt_d (time w) @ '',,'') @ NUL # ys"
proof -
  let ?pre = "''0,5,'' @ fmt_d (time w) @ '',,''"
  let ?b0 = "put_text [] (fmt_d VERSION_MAJ @ '','' @ fmt_d VERSION_MIN @ '','' @ fmt_d (time w) @ '','')"
  have b1: "\<exists>ys. put_float 3 (barometer w) ?b0 = ?pre @ NUL # ys"
    using assms by (simp add: put_float_def put_empty_def put_text_def fmt_version)
  show ?thesis
    unfolding wxlog_buf_def Let_def
    by (intro put_float_cut put_text_cut put_empty_cut append_cut b1
          if_split[where P = "\<lambda>b. \<exists>ys. b = ?pre @ NUL # ys", THEN iffD2] conjI impI)
qed

text \<open>
  Whatever else a sample holds, an invalid barometer ends its line after the
  comma of the barometer.
\<close>

lemma wxlog_cut_at_barometer:
  assumes "\<not> WXD_ISVALID (barometer w)"
  shows "wxlog True w = Some (''0,5,'' @ fmt_d (time w) @ '',,'' @ [CHR 0x0A])"
proof -
  from wxlog_buf_prefix_barometer[OF assms] obtain ys where
    b: "wxlog_buf w = (''0,5,'' @ fmt_d (time w) @ '',,'') @ NUL # ys" by blast
  have "NUL \<noteq> CHR ''0''" "NUL \<noteq> CHR ''5''" "NUL \<noteq> CHR '',''" by (simp_all add: NUL_def)
  then have "NUL \<notin> set (''0,5,'' @ fmt_d (time w) @ '',,'')"
    using fmt_d_no_NUL[of "time w"] by simp
  then have "c_str (wxlog_buf w) = ''0,5,'' @ fmt_d (time w) @ '',,''"
    unfolding b by (rule c_str_cut)
  then show ?thesis by (simp add: wxlog_def)
qed

text \<open>A sample whose fields are all valid gets its seventeen columns.\<close>

lemma wxlog_full_line:
  "wxlog True
     \<lparr>time = 1064905402, windcur = wind_zero, windavg = wind_zero, windgust = wind_zero,
      barometer = \<lparr>floatd = 29.921, intd = 0, flags = 0x213, units = ''in''\<rparr>,
      windspeed = \<lparr>floatd = 5, intd = 0, flags = 0x210, units = ''mph''\<rparr>,
      winddir = \<lparr>floatd = 180, intd = 0, flags = 0x10, units = ''deg''\<rparr>,
      avgwindspeed = \<lparr>floatd = 4, intd = 0, flags = 0x210, units = ''mph''\<rparr>,
      avgwindspeedinterval = \<lparr>floatd = 10, intd = 0, flags = 0x10, units = ''min''\<rparr>,
      indoortemp = \<lparr>floatd = 70.1, intd = 0, flags = 0x211, units = ''deg F''\<rparr>,
      outdoortemp = \<lparr>floatd = 72.3, intd = 0, flags = 0x211, units = ''deg F''\<rparr>,
      indoorhum = \<lparr>floatd = 40, intd = 0, flags = 0x10, units = ''%''\<rparr>,
      outdoorhum = \<lparr>floatd = 50, intd = 0, flags = 0x10, units = ''%''\<rparr>,
      outdoordewpoint = \<lparr>floatd = 52.6, intd = 0, flags = 0x211, units = ''deg F''\<rparr>,
      rainrate = \<lparr>floatd = 0, intd = 0, flags = 0x212, units = ''in/hr''\<rparr>,
      rainday = \<lparr>floatd = 0.1, intd = 0, flags = 0x212, units = ''in''\<rparr>,
      rainmonth = \<lparr>floatd = 1.2, intd = 0, flags = 0x212, units = ''in''\<rparr>,
      rainyear = \<lparr>floatd = 12.34, intd = 0, flags = 0x212, units = ''in''\<rparr>,
      solar = \<lparr>floatd = 0, intd = 1200, flags = 0x112, units = ''w/m2''\<rparr>\<rparr>
   = Some (''0,5,1064905402,29.921,5,180,4,70.1,72.3,52.6,40,50,0.00,0.10,1.20,12.34,1200,''
           @ [CHR 0x0A])"
  by (simp add: wxlog_def wxlog_buf_def c_str_def put_float_def put_text_def put_empty_def
        flag_defs fmt_f_def fmt_d_def dec_digits.simps Let_def
        VERSION_MAJ_def VERSION_MIN_def NUL_def)

text \<open>
  Claim C8 fails on its own example: only the barometer (29.921) and the outdoor
  temperature (72.3) are valid.  The branch for the invalid wind speed leaves
  the cursor behind the terminator it stores, so everything stored later lies
  after the end of the string, and the line written stops after the commas of
  the wind speed and direction.
\<close>

theorem wxlog_truncated_line:
  "wxlog True ((wxdat_zero 1064905402)
      \<lparr>barometer := \<lparr>floatd = 29.921, intd = 0, flags = WXD_VALID OR WXD_ENGLISH OR 3, units = ''in''\<rparr>,
       outdoortemp := \<lparr>floatd = 72.3, intd = 0, flags = WXD_VALID OR WXD_ENGLISH OR 1, units = ''deg F''\<rparr>\<rparr>)
   = Some (''0,5,1064905402,29.921,,,'' @ [CHR 0x0A])"
  by (simp add: wxlog_def wxlog_buf_def c_str_def put_float_def put_text_def put_empty_def
        wxdat_zero_def wxd_zero_def flag_defs fmt_f_def fmt_d_def dec_digits.simps Let_def
        VERSION_MAJ_def VERSION_MIN_def NUL_def)

subsection \<open>Commands and wake-ups\<close>

lemmas tty_eval = wxwakeup_def wxflush_def tty_write_def wxread_def wxread_loop.simps
  wxcmd_def wxgetack_def wxgetack_loop.simps MAX_TIMEOUT_def MAX_READ_def ACK_def
  VPLOOPCMD_def VPLOOPSIZE_def

lemma wakeup_loop_numeral:
  "wakeup_loop (numeral n) t =
     (case wxwakeup t of (t', rc) \<Rightarrow> if rc = 0 then t' else wakeup_loop (pred_numeral n) t')"
  by (simp add: numeral_eq_Suc)

text \<open>
  Claim C7 fails when the station sends five bytes that are not the ACK: the
  loop of \<^verbatim>\<open>wxgetack\<close> reads before it tests \<^verbatim>\<open>i++ >= 5\<close>, so a sixth
  read is made, and its byte, here the ACK itself, is taken off the line and
  thrown away before the command fails.
\<close>

theorem wxcmd_sixth_read:
  "case wxcmd \<lparr>clock = 0, rx = [ReadData [0x0A, 0x0D, 0x21, 0x21, 0x21, 0x06] 0],
               flush_fail = [], write_rc = [], junk = 0, trace = []\<rparr> VPLOOPCMD of
     (t', rc) \<Rightarrow>
       rc = -1 \<and> rx t' = []
     \<and> trace t' = [EvWrite VPLOOPCMD, EvRead 1 1, EvRead 1 1, EvRead 1 1, EvRead 1 1,
                    EvRead 1 1, EvRead 1 1]"
  by (simp add: tty_eval)

text \<open>An ACK in the fifth byte is accepted, after five reads.\<close>

lemma wxcmd_fifth_read:
  "case wxcmd \<lparr>clock = 0, rx = [ReadData [0x0A, 0x0D, 0x21, 0x21, 0x06] 0],
               flush_fail = [], write_rc = [], junk = 0, trace = []\<rparr> VPLOOPCMD of
     (t', rc) \<Rightarrow>
       rc = 0 \<and> rx t' = []
     \<and> trace t' = [EvWrite VPLOOPCMD, EvRead 1 1, EvRead 1 1, EvRead 1 1, EvRead 1 1,
                    EvRead 1 1]"
  by (simp add: tty_eval)

lemma wxread_loop_trace:
  "trace (fst (wxread_loop t expire got remaining timeout)) = trace t"
proof (induction t expire got remaining timeout rule: wxread_loop.induct)
  case (1 t expire got remaining timeout)
  show ?case
  proof (cases "remaining > 0 \<and> timeout > 0")
    case False
    then have "wxread_loop t expire got remaining timeout = (t, False, remaining, got)"
      by (subst wxread_loop.simps) auto
    then show ?thesis by simp
  next
    case True
    show ?thesis
    proof (cases "rx t")
      case Nil
      with True "1.IH"(1) show ?thesis by (simp add: wxread_loop.simps)
    next
      case (Cons r rest)
      show ?thesis
      proof (cases r)
        case ReadErr
        with True Cons show ?thesis by (simp add: wxread_loop.simps)
      next
        case (ReadData bs dt)
        show ?thesis
        proof (cases "int dt \<ge> timeout")
          case late: True
          with True Cons ReadData "1.IH"(2)[OF True Cons ReadData late] show ?thesis
            by (simp add: wxread_loop.simps)
        next
          case early: False
          with True Cons ReadData "1.IH"(3)[OF True Cons ReadData early] show ?thesis
            by (simp add: wxread_loop.simps)
        qed
      qed
    qed
  qed
qed

lemma wxread_trace: "set (trace t) \<subseteq> set (trace (fst (wxread t buf len timeout)))"
proof (cases "timeout \<le> 0 \<or> timeout > MAX_TIMEOUT \<or> len = 0 \<or> len > MAX_READ")
  case True
  then show ?thesis by (auto simp: wxread_def)
next
  case False
  have "trace (fst (wxread t buf len timeout))
          = trace (fst (wxread_loop (t\<lparr>trace := trace t @ [EvRead len timeout]\<rparr>)
                          (clock t + timeout) [] len timeout))"
    using False by (simp add: wxread_def split: prod.split)
  then have "trace (fst (wxread t buf len timeout)) = trace t @ [EvRead len timeout]"
    by (simp add: wxread_loop_trace)
  then show ?thesis by auto
qed

lemma wxgetack_loop_trace: "set (trace t) \<subseteq> set (trace (fst (wxgetack_loop t i ackbuf)))"
proof (induction t i ackbuf rule: wxgetack_loop.induct)
  case (1 t i ackbuf)
  obtain t' rrc buf where r: "wxread t [ackbuf] 1 1 = (t', rrc, buf)" by (metis prod_cases3)
  from wxread_trace[of t "[ackbuf]" 1 1] r have m: "set (trace t) \<subseteq> set (trace t')" by simp
  show ?case
  proof (cases "rrc \<noteq> -1 \<and> \<not> i \<ge> 5 \<and> buf ! 0 \<noteq> ACK")
    case True
    with "1.IH"[OF r[symmetric] refl] r
    have "set (trace t') \<subseteq> set (trace (fst (wxgetack_loop t' (i + 1) (buf ! 0))))" by simp
    moreover from True r have "wxgetack_loop t i ackbuf = wxgetack_loop t' (i + 1) (buf ! 0)"
      by (subst wxgetack_loop.simps) simp
    ultimately show ?thesis using m by simp
  next
    case False
    with r have "fst (wxgetack_loop t i ackbuf) = t'"
      by (subst wxgetack_loop.simps) auto
    with m show ?thesis by simp
  qed
qed

lemma wxcmd_trace: "EvWrite cmd \<in> set (trace (fst (wxcmd t cmd)))"
proof -
  obtain t1 rc where w: "tty_write t cmd = (t1, rc)" by (metis surj_pair)
  then have e: "EvWrite cmd \<in> set (trace t1)"
    by (auto simp: tty_write_def split: list.splits)
  from wxgetack_loop_trace[of t1 0 "junk t1"] e
  have "EvWrite cmd \<in> set (trace (fst (wxgetack t1)))" by (auto simp: wxgetack_def)
  with w e show ?thesis by (auto simp: wxcmd_def split: prod.splits)
qed

text \<open>
  Every cycle sends the LOOP command, whatever the wake-up attempts met.
\<close>

lemma loop_fetch_sends_command: "EvWrite VPLOOPCMD \<in> set (trace (fst (loop_fetch t)))"
proof -
  obtain t2 crc where c: "wxcmd (wakeup_loop 4 t) VPLOOPCMD = (t2, crc)" by (metis surj_pair)
  with wxcmd_trace[of VPLOOPCMD "wakeup_loop 4 t"] have e: "EvWrite VPLOOPCMD \<in> set (trace t2)"
    by simp
  with wxread_trace[of t2 "replicate VPLOOPSIZE (junk t2)" VPLOOPSIZE 10]
  have "EvWrite VPLOOPCMD \<in> set (trace (fst (wxread t2 (replicate VPLOOPSIZE (junk t2)) VPLOOPSIZE 10)))"
    by blast
  with c e show ?thesis
    by (auto simp: loop_fetch_def Let_def split: prod.splits)
qed

text \<open>
  Claim C3 fails twice.  A station that answers each of the four wake-ups with
  the bytes \<^verbatim>\<open>XX\<close> fails every attempt, and \<^verbatim>\<open>wxgetloop\<close>, which does not
  test how its loop ended, sends the LOOP command all the same, reads the
  record and decodes it.  And \<^verbatim>\<open>wxwakeup\<close> accepts two carriage returns: its
  test rejects only when neither byte is one that was hoped for at its place.
\<close>

theorem wxgetloop_after_failed_wakeups:
  "(case wxgetloop (\<lambda>bs. 0) 30 True
          \<lparr>clock = 0,
           rx = [ReadData [0x58, 0x58] 0, ReadData [0x58, 0x58] 0, ReadData [0x58, 0x58] 0,
                 ReadData [0x58, 0x58] 0, ReadData [0x06] 0, ReadData ((replicate 99 0)[14 := 5]) 1],
           flush_fail = [], write_rc = [], junk = 0, trace = []\<rparr>
          gust_init (wxdat_zero 0) of
      Inl e \<Rightarrow> False
    | Inr (t', g', w') \<Rightarrow>
        trace t' = [EvFlush, EvWrite [CHR 0x0A], EvRead 2 5, EvFlush, EvWrite [CHR 0x0A], EvRead 2 5,
                    EvFlush, EvWrite [CHR 0x0A], EvRead 2 5, EvFlush, EvWrite [CHR 0x0A], EvRead 2 5,
                    EvWrite VPLOOPCMD, EvRead 1 1, EvRead 99 10]
      \<and> WXD_ISVALID (windspeed w') \<and> speed (windcur w') = 5)
   \<and> snd (wxwakeup \<lparr>clock = 0, rx = [ReadData [0x0D, 0x0D] 0],
                      flush_fail = [], write_rc = [], junk = 0, trace = []\<rparr>) = 0"
proof -
  have g: "wxcalcwindgust 30 True gust_init \<lparr>speed = 5, direction = 0\<rparr>
      = Inr (\<lparr>warr = (replicate 32 wind_zero)[0 := \<lparr>speed = 5, direction = 0\<rparr>],
               walen = 32, waidx = 1, tenmin = 21\<rparr>, Some \<lparr>speed = 5, direction = 0\<rparr>)"
    by (simp add: gust_eval gust_sizing_30)
  have f: "loop_fetch \<lparr>clock = 0,
           rx = [ReadData [0x58, 0x58] 0, ReadData [0x58, 0x58] 0, ReadData [0x58, 0x58] 0,
                 ReadData [0x58, 0x58] 0, ReadData [0x06] 0, ReadData ((replicate 99 0)[14 := 5]) 1],
           flush_fail = [], write_rc = [], junk = 0, trace = []\<rparr>
     = (\<lparr>clock = 1, rx = [], flush_fail = [], write_rc = [], junk = 0,
         trace = [EvFlush, EvWrite [CHR 0x0A], EvRead 2 5, EvFlush, EvWrite [CHR 0x0A], EvRead 2 5,
                    EvFlush, EvWrite [CHR 0x0A], EvRead 2 5, EvFlush, EvWrite [CHR 0x0A], EvRead 2 5,
                    EvWrite VPLOOPCMD, EvRead 1 1, EvRead 99 10]\<rparr>, Some ((replicate 99 0)[14 := 5]))"
    by (simp add: loop_fetch_def tty_eval wakeup_loop_numeral Let_def)
  have w: "snd (wxwakeup \<lparr>clock = 0, rx = [ReadData [0x0D, 0x0D] 0],
                      flush_fail = [], write_rc = [], junk = 0, trace = []\<rparr>) = 0"
    by (simp add: tty_eval)
  show ?thesis
    unfolding wxgetloop_def f
    by (simp add: w cvtvploop2fwx_def cvt_head_def cvt_wind_temp_def cvt_hum_rain_def cvt_float_def cvt_int_def
        wxdat_zero_def wxd_zero_def ld_defs Let_def g wind_zero_def
        wxcalcdewpoint_def sonntag_def sonntag_ews_def flag_defs)
qed

subsection \<open>The integrity check of \<^verbatim>\<open>wxgetloop\<close>\<close>





text \<open>
  A station that answers the wake-up with newline and carriage return, the
  command with the ACK, and then sends 99 bytes: the cycle reads these bytes as
  its record, whatever they are.
\<close>

lemma loop_fetch_answering:
  assumes "length r = 99"
  shows "loop_fetch \<lparr>clock = c, rx = [ReadData [0x0A, 0x0D] 0, ReadData [0x06] 0, ReadData r 0],
             flush_fail = [], write_rc = [], junk = j, trace = []\<rparr>
         = (\<lparr>clock = c, rx = [], flush_fail = [], write_rc = [], junk = j,
              trace = [EvFlush, EvWrite [CHR 0x0A], EvRead 2 5, EvWrite VPLOOPCMD, EvRead 1 1,
                       EvRead 99 10]\<rparr>, Some r)"
  using assms
  by (simp add: loop_fetch_def tty_eval wakeup_loop_numeral Let_def)




subsection \<open>The rate limit of the CWOP uplink\<close>

lemma wxsendcwop_lasthere:
  "fst (wxsendcwop cf nw now lasthere) = now \<or> fst (wxsendcwop cf nw now lasthere) = lasthere"
  by (simp add: wxsendcwop_def Let_def)

lemma wxsendcwop_cases:
  "wxsendcwop cf nw now lasthere = (l, evs) \<Longrightarrow>
     (l = now \<and> NetWritePacket True \<in> set evs \<and> connections evs = 1)
   \<or> (l = lasthere \<and> NetWritePacket True \<notin> set evs \<and> connections evs \<le> 1)"
  by (auto simp: wxsendcwop_def Let_def connections_def split: if_splits)

lemma wxsendcwop_skip:
  "cwopsvr cf = [] \<or> cwopuser cf = [] \<or> cwoploc cf = [] \<or> now - lasthere < 300 \<Longrightarrow>
     wxsendcwop cf nw now lasthere = (lasthere, [])"
  by (auto simp: wxsendcwop_def)

lemma wxsendcwop_due:
  assumes "cwopsvr cf \<noteq> []" "cwopuser cf \<noteq> []" "cwoploc cf \<noteq> []" "300 \<le> now - lasthere"
  shows "connections (snd (wxsendcwop cf nw now lasthere))
           = (if s_addr nw \<noteq> INADDR_NONE \<and> socket_ok nw \<and> connect_ok nw then 1 else 0)"
    and "fst (wxsendcwop cf nw now lasthere)
           = (if s_addr nw \<noteq> INADDR_NONE \<and> socket_ok nw \<and> connect_ok nw
                 \<and> login_write_ok nw \<and> packet_write_ok nw then now else lasthere)"
    and "NetWritePacket True \<in> set (snd (wxsendcwop cf nw now lasthere))
           \<longleftrightarrow> s_addr nw \<noteq> INADDR_NONE \<and> socket_ok nw \<and> connect_ok nw
                 \<and> login_write_ok nw \<and> packet_write_ok nw"
  using assms
  by (auto simp: wxsendcwop_def Let_def connections_def s_addr_def)

text \<open>
  Claim C9.  A call made without server, user or location, or fewer than 300
  seconds after the time held in \<^verbatim>\<open>lasthere\<close>, makes no system call and
  leaves \<^verbatim>\<open>lasthere\<close> as it was.  Every other call opens one connection when
  the server's address is found and \<^verbatim>\<open>socket\<close> and \<^verbatim>\<open>connect\<close> succeed, and none
  otherwise; it writes the weather packet exactly when the two \<^verbatim>\<open>write\<close> calls
  succeed as well, and then \<^verbatim>\<open>lasthere\<close> becomes the time of the call; in every
  other case \<^verbatim>\<open>lasthere\<close> stays as it was.  So after a call that sent its
  packet, a second call fewer than 300 seconds later (four minutes, say) does
  nothing: the two open exactly one connection; a second call 300 seconds later
  or more (six minutes, say) that reaches the server opens another: the two open
  exactly two.  After a call that was due but did not send its packet, a second
  call that reaches the server opens a connection however soon it comes.
\<close>

theorem cwop_rate_limit:
  "(cwopsvr cf = [] \<or> cwopuser cf = [] \<or> cwoploc cf = [] \<or> now - lasthere < 300 \<longrightarrow>
      wxsendcwop cf nw now lasthere = (lasthere, []))
   \<and> (cwopsvr cf \<noteq> [] \<and> cwopuser cf \<noteq> [] \<and> cwoploc cf \<noteq> [] \<and> 300 \<le> now - lasthere \<longrightarrow>
        connections (snd (wxsendcwop cf nw now lasthere))
          = (if s_addr nw \<noteq> INADDR_NONE \<and> socket_ok nw \<and> connect_ok nw then 1 else 0)
      \<and> fst (wxsendcwop cf nw now lasthere)
          = (if s_addr nw \<noteq> INADDR_NONE \<and> socket_ok nw \<and> connect_ok nw
                \<and> login_write_ok nw \<and> packet_write_ok nw then now else lasthere)
      \<and> (NetWritePacket True \<in> set (snd (wxsendcwop cf nw now lasthere)))
          = (s_addr nw \<noteq> INADDR_NONE \<and> socket_ok nw \<and> connect_ok nw
                \<and> login_write_ok nw \<and> packet_write_ok nw))
   \<and> (cwopsvr cf \<noteq> [] \<and> cwopuser cf \<noteq> [] \<and> cwoploc cf \<noteq> [] \<and> 300 \<le> t1 - lasthere
        \<and> s_addr n1 \<noteq> INADDR_NONE \<and> socket_ok n1 \<and> connect_ok n1
        \<and> login_write_ok n1 \<and> packet_write_ok n1 \<longrightarrow>
        (d < 300 \<longrightarrow> cwop_twice cf n1 t1 n2 (t1 + d) lasthere = wxsendcwop cf n1 t1 lasthere
                     \<and> connections (snd (cwop_twice cf n1 t1 n2 (t1 + d) lasthere)) = 1)
      \<and> (300 \<le> d \<and> s_addr n2 \<noteq> INADDR_NONE \<and> socket_ok n2 \<and> connect_ok n2 \<longrightarrow>
           connections (snd (cwop_twice cf n1 t1 n2 (t1 + d) lasthere)) = 2))
   \<and> (cwopsvr cf \<noteq> [] \<and> cwopuser cf \<noteq> [] \<and> cwoploc cf \<noteq> [] \<and> 300 \<le> t1 - lasthere
        \<and> \<not> (s_addr n1 \<noteq> INADDR_NONE \<and> socket_ok n1 \<and> connect_ok n1
              \<and> login_write_ok n1 \<and> packet_write_ok n1)
        \<and> 0 \<le> d \<and> s_addr n2 \<noteq> INADDR_NONE \<and> socket_ok n2 \<and> connect_ok n2 \<longrightarrow>
        connections (snd (cwop_twice cf n1 t1 n2 (t1 + d) lasthere))
          = (if s_addr n1 \<noteq> INADDR_NONE \<and> socket_ok n1 \<and> connect_ok n1 then 2 else 1))"
proof -
  have p1: "cwopsvr cf = [] \<or> cwopuser cf = [] \<or> cwoploc cf = [] \<or> now - lasthere < 300 \<longrightarrow>
      wxsendcwop cf nw now lasthere = (lasthere, [])"
    using wxsendcwop_skip by blast
  have p2: "cwopsvr cf \<noteq> [] \<and> cwopuser cf \<noteq> [] \<and> cwoploc cf \<noteq> [] \<and> 300 \<le> now - lasthere \<longrightarrow>
        connections (snd (wxsendcwop cf nw now lasthere))
          = (if s_addr nw \<noteq> INADDR_NONE \<and> socket_ok nw \<and> connect_ok nw then 1 else 0)
      \<and> fst (wxsendcwop cf nw now lasthere)
          = (if s_addr nw \<noteq> INADDR_NONE \<and> socket_ok nw \<and> connect_ok nw
                \<and> login_write_ok nw \<and> packet_write_ok nw then now else lasthere)
      \<and> (NetWritePacket True \<in> set (snd (wxsendcwop cf nw now lasthere)))
          = (s_addr nw \<noteq> INADDR_NONE \<and> socket_ok nw \<and> connect_ok nw
                \<and> login_write_ok nw \<and> packet_write_ok nw)"
    using wxsendcwop_due[of cf now lasthere nw] by blast
  have p3: "cwopsvr cf \<noteq> [] \<and> cwopuser cf \<noteq> [] \<and> cwoploc cf \<noteq> [] \<and> 300 \<le> t1 - lasthere
        \<and> s_addr n1 \<noteq> INADDR_NONE \<and> socket_ok n1 \<and> connect_ok n1
        \<and> login_write_ok n1 \<and> packet_write_ok n1 \<longrightarrow>
        (d < 300 \<longrightarrow> cwop_twice cf n1 t1 n2 (t1 + d) lasthere = wxsendcwop cf n1 t1 lasthere
                     \<and> connections (snd (cwop_twice cf n1 t1 n2 (t1 + d) lasthere)) = 1)
      \<and> (300 \<le> d \<and> s_addr n2 \<noteq> INADDR_NONE \<and> socket_ok n2 \<and> connect_ok n2 \<longrightarrow>
           connections (snd (cwop_twice cf n1 t1 n2 (t1 + d) lasthere)) = 2)"
  proof (intro impI)
    assume a: "cwopsvr cf \<noteq> [] \<and> cwopuser cf \<noteq> [] \<and> cwoploc cf \<noteq> [] \<and> 300 \<le> t1 - lasthere
        \<and> s_addr n1 \<noteq> INADDR_NONE \<and> socket_ok n1 \<and> connect_ok n1
        \<and> login_write_ok n1 \<and> packet_write_ok n1"
    obtain l1 e1 where r: "wxsendcwop cf n1 t1 lasthere = (l1, e1)" by (metis surj_pair)
    from a wxsendcwop_due(1,2)[of cf t1 lasthere n1] r
    have l: "l1 = t1" and c: "connections e1 = 1" by simp_all
    have near: "d < 300 \<longrightarrow> cwop_twice cf n1 t1 n2 (t1 + d) lasthere = wxsendcwop cf n1 t1 lasthere
                     \<and> connections (snd (cwop_twice cf n1 t1 n2 (t1 + d) lasthere)) = 1"
    proof
      assume "d < 300"
      then have "wxsendcwop cf n2 (t1 + d) t1 = (t1, [])"
        by (intro wxsendcwop_skip) simp
      with r l c show "cwop_twice cf n1 t1 n2 (t1 + d) lasthere = wxsendcwop cf n1 t1 lasthere
                     \<and> connections (snd (cwop_twice cf n1 t1 n2 (t1 + d) lasthere)) = 1"
        by (simp add: cwop_twice_def)
    qed
    have far: "300 \<le> d \<and> s_addr n2 \<noteq> INADDR_NONE \<and> socket_ok n2 \<and> connect_ok n2 \<longrightarrow>
           connections (snd (cwop_twice cf n1 t1 n2 (t1 + d) lasthere)) = 2"
    proof
      assume b: "300 \<le> d \<and> s_addr n2 \<noteq> INADDR_NONE \<and> socket_ok n2 \<and> connect_ok n2"
      then have "300 \<le> (t1 + d) - t1" by simp
      with a b wxsendcwop_due(1)[of cf "t1 + d" t1 n2]
      have c2: "connections (snd (wxsendcwop cf n2 (t1 + d) t1)) = 1" by simp
      obtain l2 e2 where r2: "wxsendcwop cf n2 (t1 + d) t1 = (l2, e2)" by (metis surj_pair)
      with r l c c2 show "connections (snd (cwop_twice cf n1 t1 n2 (t1 + d) lasthere)) = 2"
        by (simp add: cwop_twice_def connections_def)
    qed
    from near far show "(d < 300 \<longrightarrow> cwop_twice cf n1 t1 n2 (t1 + d) lasthere = wxsendcwop cf n1 t1 lasthere
                     \<and> connections (snd (cwop_twice cf n1 t1 n2 (t1 + d) lasthere)) = 1)
      \<and> (300 \<le> d \<and> s_addr n2 \<noteq> INADDR_NONE \<and> socket_ok n2 \<and> connect_ok n2 \<longrightarrow>
           connections (snd (cwop_twice cf n1 t1 n2 (t1 + d) lasthere)) = 2)" by (rule conjI)
  qed
  have p4: "cwopsvr cf \<noteq> [] \<and> cwopuser cf \<noteq> [] \<and> cwoploc cf \<noteq> [] \<and> 300 \<le> t1 - lasthere
        \<and> \<not> (s_addr n1 \<noteq> INADDR_NONE \<and> socket_ok n1 \<and> connect_ok n1
              \<and> login_write_ok n1 \<and> packet_write_ok n1)
        \<and> 0 \<le> d \<and> s_addr n2 \<noteq> INADDR_NONE \<and> socket_ok n2 \<and> connect_ok n2 \<longrightarrow>
        connections (snd (cwop_twice cf n1 t1 n2 (t1 + d) lasthere))
          = (if s_addr n1 \<noteq> INADDR_NONE \<and> socket_ok n1 \<and> connect_ok n1 then 2 else 1)"
  proof
    assume a: "cwopsvr cf \<noteq> [] \<and> cwopuser cf \<noteq> [] \<and> cwoploc cf \<noteq> [] \<and> 300 \<le> t1 - lasthere
        \<and> \<not> (s_addr n1 \<noteq> INADDR_NONE \<and> socket_ok n1 \<and> connect_ok n1
              \<and> login_write_ok n1 \<and> packet_write_ok n1)
        \<and> 0 \<le> d \<and> s_addr n2 \<noteq> INADDR_NONE \<and> socket_ok n2 \<and> connect_ok n2"
    obtain l1 e1 where r: "wxsendcwop cf n1 t1 lasthere = (l1, e1)" by (metis surj_pair)
    from a wxsendcwop_due(1,2)[of cf t1 lasthere n1] r
    have l: "l1 = lasthere"
      and c: "connections e1 = (if s_addr n1 \<noteq> INADDR_NONE \<and> socket_ok n1 \<and> connect_ok n1 then 1 else 0)"
      by simp_all
    from a have "300 \<le> (t1 + d) - lasthere" by simp
    with a wxsendcwop_due(1)[of cf "t1 + d" lasthere n2]
    have c2: "connections (snd (wxsendcwop cf n2 (t1 + d) lasthere)) = 1" by simp
    obtain l2 e2 where r2: "wxsendcwop cf n2 (t1 + d) lasthere = (l2, e2)" by (metis surj_pair)
    with r l c c2 show "connections (snd (cwop_twice cf n1 t1 n2 (t1 + d) lasthere))
          = (if s_addr n1 \<noteq> INADDR_NONE \<and> socket_ok n1 \<and> connect_ok n1 then 2 else 1)"
      by (simp add: cwop_twice_def connections_def)
  qed
  show ?thesis
    by (rule conjI[OF p1 conjI[OF p2 conjI[OF p3 p4]]])
qed


theorem cwop_rate_limit_witness:
  "wxsendcwop \<lparr>cwopsvr = ''cwop.aprs.net'', cwopuser = ''EW0000'', cwoploc = ''4903.50N/07201.75W''\<rparr>
     \<lparr>gethostbyname = Some 0x0100007F, inet_addr = 0xffffffff, socket_ok = True,
      connect_ok = True, login_write_ok = True, packet_write_ok = True\<rparr> 1100 1000 = (1000, [])
   \<and> fst (wxsendcwop \<lparr>cwopsvr = ''cwop.aprs.net'', cwopuser = ''EW0000'', cwoploc = ''4903.50N/07201.75W''\<rparr>
     \<lparr>gethostbyname = Some 0x0100007F, inet_addr = 0xffffffff, socket_ok = True,
      connect_ok = True, login_write_ok = True, packet_write_ok = True\<rparr> 1000 0) = 1000
   \<and> fst (wxsendcwop \<lparr>cwopsvr = ''cwop.aprs.net'', cwopuser = ''EW0000'', cwoploc = ''4903.50N/07201.75W''\<rparr>
     \<lparr>gethostbyname = Some 0x0100007F, inet_addr = 0xffffffff, socket_ok = True,
      connect_ok = True, login_write_ok = True, packet_write_ok = False\<rparr> 1000 0) = 0
   \<and> connections (snd (wxsendcwop \<lparr>cwopsvr = ''cwop.aprs.net'', cwopuser = ''EW0000'', cwoploc = ''4903.50N/07201.75W''\<rparr>
     \<lparr>gethostbyname = Some 0x0100007F, inet_addr = 0xffffffff, socket_ok = True,
      connect_ok = True, login_write_ok = True, packet_write_ok = False\<rparr> 1000 0)) = 1
   \<and> connections (snd (cwop_twice
       \<lparr>cwopsvr = ''cwop.aprs.net'', cwopuser = ''EW0000'', cwoploc = ''4903.50N/07201.75W''\<rparr>
       \<lparr>gethostbyname = Some 0x0100007F, inet_addr = 0xffffffff, socket_ok = True,
        connect_ok = True, login_write_ok = True, packet_write_ok = True\<rparr> 1000
       \<lparr>gethostbyname = Some 0x0100007F, inet_addr = 0xffffffff, socket_ok = True,
        connect_ok = True, login_write_ok = True, packet_write_ok = True\<rparr> 1240 0)) = 1
   \<and> connections (snd (cwop_twice
       \<lparr>cwopsvr = ''cwop.aprs.net'', cwopuser = ''EW0000'', cwoploc = ''4903.50N/07201.75W''\<rparr>
       \<lparr>gethostbyname = Some 0x0100007F, inet_addr = 0xffffffff, socket_ok = True,
        connect_ok = True, login_write_ok = True, packet_write_ok = True\<rparr> 1000
       \<lparr>gethostbyname = Some 0x0100007F, inet_addr = 0xffffffff, socket_ok = True,
        connect_ok = True, login_write_ok = True, packet_write_ok = True\<rparr> 1360 0)) = 2
   \<and> connections (snd (cwop_twice
       \<lparr>cwopsvr = ''cwop.aprs.net'', cwopuser = ''EW0000'', cwoploc = ''4903.50N/07201.75W''\<rparr>
       \<lparr>gethostbyname = Some 0x0100007F, inet_addr = 0xffffffff, socket_ok = True,
        connect_ok = True, login_write_ok = True, packet_write_ok = False\<rparr> 1000
       \<lparr>gethostbyname = Some 0x0100007F, inet_addr = 0xffffffff, socket_ok = True,
        connect_ok = True, login_write_ok = True, packet_write_ok = True\<rparr> 1240 0)) = 2"
proof -
  let ?cf = "\<lparr>cwopsvr = ''cwop.aprs.net'', cwopuser = ''EW0000'', cwoploc = ''4903.50N/07201.75W''\<rparr>"
  let ?ok = "\<lparr>gethostbyname = Some (0x0100007F :: 32 word), inet_addr = 0xffffffff, socket_ok = True,
        connect_ok = True, login_write_ok = True, packet_write_ok = True\<rparr>"
  let ?bad = "\<lparr>gethostbyname = Some (0x0100007F :: 32 word), inet_addr = 0xffffffff, socket_ok = True,
        connect_ok = True, login_write_ok = True, packet_write_ok = False\<rparr>"
  have cf: "cwopsvr ?cf \<noteq> [] \<and> cwopuser ?cf \<noteq> [] \<and> cwoploc ?cf \<noteq> []" by simp
  have ok: "s_addr ?ok \<noteq> INADDR_NONE \<and> socket_ok ?ok \<and> connect_ok ?ok
              \<and> login_write_ok ?ok \<and> packet_write_ok ?ok"
    by (simp add: s_addr_def INADDR_NONE_def)
  have bad: "s_addr ?bad \<noteq> INADDR_NONE \<and> socket_ok ?bad \<and> connect_ok ?bad
              \<and> login_write_ok ?bad \<and> \<not> packet_write_ok ?bad"
    by (simp add: s_addr_def INADDR_NONE_def)
  have early: "(1100 :: int) - 1000 < 300" and due: "(300 :: int) \<le> 1000 - 0"
    and d4: "(240 :: int) < 300" "(0 :: int) \<le> 240" and d6: "(300 :: int) \<le> 360" by simp_all
  have t4: "(1000 :: int) + 240 = 1240" and t6: "(1000 :: int) + 360 = 1360" by simp_all
  note r1 = cwop_rate_limit[where cf = ?cf and nw = ?ok and now = 1100 and lasthere = 1000
      and ?n1.0 = ?ok and ?t1.0 = 1000 and ?n2.0 = ?ok and d = 240]
  note r2 = cwop_rate_limit[where cf = ?cf and nw = ?ok and now = 1000 and lasthere = 0
      and ?n1.0 = ?ok and ?t1.0 = 1000 and ?n2.0 = ?ok and d = 240]
  note r3 = cwop_rate_limit[where cf = ?cf and nw = ?bad and now = 1000 and lasthere = 0
      and ?n1.0 = ?ok and ?t1.0 = 1000 and ?n2.0 = ?ok and d = 360]
  note r4 = cwop_rate_limit[where cf = ?cf and nw = ?bad and now = 1000 and lasthere = 0
      and ?n1.0 = ?bad and ?t1.0 = 1000 and ?n2.0 = ?ok and d = 240]
  from r1 early have c1: "wxsendcwop ?cf ?ok 1100 1000 = (1000, [])" by blast
  from r2 cf due ok have c2: "fst (wxsendcwop ?cf ?ok 1000 0) = 1000" by simp
  from r3 cf due bad have c3: "fst (wxsendcwop ?cf ?bad 1000 0) = 0"
    and c4: "connections (snd (wxsendcwop ?cf ?bad 1000 0)) = 1" by simp_all
  from r2 cf due ok d4 have c5: "connections (snd (cwop_twice ?cf ?ok 1000 ?ok (1000 + 240) 0)) = 1"
    by blast
  from r3 cf due ok d6 have c6: "connections (snd (cwop_twice ?cf ?ok 1000 ?ok (1000 + 360) 0)) = 2"
    by blast
  from r4 cf due bad ok d4 have c7: "connections (snd (cwop_twice ?cf ?bad 1000 ?ok (1000 + 240) 0)) = 2"
    by simp
  from c1 c2 c3 c4 c5 c6 c7 show ?thesis unfolding t4 t6 by blast
qed

end
